theory Spec2Isabelle
  imports Main
begin

section \<open>The DHIS2 export document\<close>

text \<open>
  \<open>json.load\<close> returns the export as nested dictionaries and lists. The export
  is modelled with one record per kind of JSON object that \<open>dhis2diff_mer\<close> reads.
  Every key the code subscripts is an optional field: \<open>None\<close> is a key that is
  absent from the dictionary, so that \<open>d['k']\<close> raises \<open>KeyError\<close> there.
  A key that is present is assumed to hold a value of the JSON type the DHIS2 query
  returns (a string, an object or an array).
\<close>

datatype error = KeyError string

record category_option_combo =
  coc_id :: "string option"
  coc_code :: "string option"
  coc_name :: "string option"

record category_combo =
  categoryOptionCombos :: "category_option_combo list option"

record data_set =
  ds_id :: "string option"

record data_set_element =
  dataSet :: "data_set option"

record data_element =
  de_id :: "string option"
  de_code :: "string option"
  de_name :: "string option"
  de_shortName :: "string option"
  de_description :: "string option"
  categoryCombo :: "category_combo option"
  dataSetElements :: "data_set_element list option"

record dhis2_export =
  dataElements :: "data_element list option"

section \<open>Canonical resource records\<close>

record concept_name =
  n_name :: string
  n_name_type :: string
  n_locale :: string
  n_locale_preferred :: bool
  n_external_id :: "string option"

record concept_description =
  d_description :: string
  d_description_type :: string
  d_locale :: string
  d_locale_preferred :: bool
  d_external_id :: "string option"

record concept =
  c_type :: string
  c_id :: string
  concept_class :: string
  c_datatype :: string
  c_owner :: string
  c_owner_type :: string
  c_source :: string
  c_retired :: bool
  c_external_id :: string
  c_descriptions :: "concept_description list option"
  c_names :: "concept_name list"

record mapping =
  m_type :: string
  m_owner :: string
  m_owner_type :: string
  m_source :: string
  map_type :: string
  from_concept_url :: string
  to_concept_url :: string

text \<open>
  \<open>self.dhis2_diff[IMPORT_BATCH_MER]\<close>: one dictionary per resource type, keyed by
  \<open>RESOURCE_TYPE_CONCEPT\<close>, \<open>RESOURCE_TYPE_MAPPING\<close> and
  \<open>RESOURCE_TYPE_CONCEPT_REF\<close>. The three partitions that \<open>dhis2diff_mer\<close>
  writes are the fields of the record. The keys and records of concept references are
  made by \<open>get_concept_reference_json\<close>, a method of the base class
  \<open>DatimSync\<close> (module \<open>datimsync\<close>); their types are parameters.
\<close>

record ('k, 'r) snapshot =
  concepts :: "string \<rightharpoonup> concept"
  mappings :: "string \<rightharpoonup> mapping"
  concept_refs :: "'k \<rightharpoonup> 'r"

text \<open>The five local counters of \<open>dhis2diff_mer\<close>.\<close>

record counts =
  num_indicators :: nat
  num_disaggregates :: nat
  num_mappings :: nat
  num_indicator_refs :: nat
  num_disaggregate_refs :: nat

definition zero_counts :: counts where
  "zero_counts = \<lparr>num_indicators = 0, num_disaggregates = 0, num_mappings = 0,
     num_indicator_refs = 0, num_disaggregate_refs = 0\<rparr>"

text \<open>
  Modelled from the spec: the snapshot a sync run starts from (``Snapshots are built
  fresh per sync run''). \<open>self.dhis2_diff\<close> is initialised by the base class
  \<open>DatimSync\<close>, whose module \<open>datimsync\<close> is not part of the verified files.
\<close>

definition empty_snapshot :: "('k, 'r) snapshot" where
  "empty_snapshot = \<lparr>concepts = Map.empty, mappings = Map.empty, concept_refs = Map.empty\<rparr>"

section \<open>The transformer \<open>DatimSyncMer.dhis2diff_mer\<close>\<close>

text \<open>
  The URL of a concept of the source MER, which the code also uses as the concept's key
  (lines 103--104 for an indicator, 151--152 for a disaggregate).
\<close>

definition concept_url :: "string \<Rightarrow> string" where
  "concept_url concept_id = ''/orgs/PEPFAR/sources/MER/concepts/'' @ concept_id @ ''/''"

definition indicator_concept ::
  "string \<Rightarrow> string \<Rightarrow> string \<Rightarrow> string \<Rightarrow> string option \<Rightarrow> concept" where
  "indicator_concept indicator_concept_id ext_id full_name short_name description =
     \<lparr>c_type = ''Concept'',
      c_id = indicator_concept_id,
      concept_class = ''Indicator'',
      c_datatype = ''Numeric'',
      c_owner = ''PEPFAR'',
      c_owner_type = ''Organization'',
      c_source = ''MER'',
      c_retired = False,
      c_external_id = ext_id,
      c_descriptions =
        (case description of
           None \<Rightarrow> None
         | Some d \<Rightarrow>
             if d \<noteq> [] then
               Some [\<lparr>d_description = d, d_description_type = ''Description'',
                      d_locale = ''en'', d_locale_preferred = True, d_external_id = None\<rparr>]
             else None),
      c_names =
        [\<lparr>n_name = full_name, n_name_type = ''Fully Specified'', n_locale = ''en'',
          n_locale_preferred = True, n_external_id = None\<rparr>,
         \<lparr>n_name = short_name, n_name_type = ''Short'', n_locale = ''en'',
          n_locale_preferred = False, n_external_id = None\<rparr>]\<rparr>"

definition disaggregate_concept :: "string \<Rightarrow> string \<Rightarrow> string \<Rightarrow> concept" where
  "disaggregate_concept disaggregate_concept_id ext_id full_name =
     \<lparr>c_type = ''Concept'',
      c_id = disaggregate_concept_id,
      concept_class = ''Disaggregate'',
      c_datatype = ''None'',
      c_owner = ''PEPFAR'',
      c_owner_type = ''Organization'',
      c_source = ''MER'',
      c_retired = False,
      c_external_id = ext_id,
      c_descriptions = None,
      c_names =
        [\<lparr>n_name = full_name, n_name_type = ''Fully Specified'', n_locale = ''en'',
          n_locale_preferred = True, n_external_id = None\<rparr>]\<rparr>"

definition disaggregate_mapping_key :: "string \<Rightarrow> string \<Rightarrow> string" where
  "disaggregate_mapping_key indicator_concept_url disaggregate_concept_url =
     ''/orgs/PEPFAR/sources/MER/mappings/?from='' @ indicator_concept_url @
     ''&maptype='' @ ''Has Option'' @ ''&to='' @ disaggregate_concept_url"

definition disaggregate_mapping :: "string \<Rightarrow> string \<Rightarrow> mapping" where
  "disaggregate_mapping indicator_concept_url disaggregate_concept_url =
     \<lparr>m_type = ''Mapping'',
      m_owner = ''PEPFAR'',
      m_owner_type = ''Organization'',
      m_source = ''MER'',
      map_type = ''Has Option'',
      from_concept_url = indicator_concept_url,
      to_concept_url = disaggregate_concept_url\<rparr>"

text \<open>
  The body of the loop over \<open>categoryOptionCombos\<close> (lines 149--196). The loop
  state is the snapshot, the counters and \<open>indicator_disaggregate_concept_urls\<close>.
  \<open>coc['id']\<close> and \<open>coc['name']\<close> are read only when the disaggregate concept
  is built.
\<close>

definition coc_step ::
  "string \<Rightarrow> category_option_combo \<Rightarrow> ('k, 'r) snapshot \<times> counts \<times> string list
     \<Rightarrow> error + ('k, 'r) snapshot \<times> counts \<times> string list" where
  "coc_step indicator_concept_url coc st =
     (case st of (s, n, urls) \<Rightarrow>
       (case coc_code coc of
          None \<Rightarrow> Inl (KeyError ''code'')
        | Some disaggregate_concept_id \<Rightarrow>
            let disaggregate_concept_url = concept_url disaggregate_concept_id;
                urls' = urls @ [disaggregate_concept_url];
                built =
                  (if concepts s disaggregate_concept_url = None then
                     (case coc_id coc of
                        None \<Rightarrow> Inl (KeyError ''id'')
                      | Some ext_id \<Rightarrow>
                          (case coc_name coc of
                             None \<Rightarrow> Inl (KeyError ''name'')
                           | Some full_name \<Rightarrow>
                               Inr (s\<lparr>concepts := (concepts s)(disaggregate_concept_url \<mapsto>
                                        disaggregate_concept disaggregate_concept_id ext_id full_name)\<rparr>,
                                    n\<lparr>num_disaggregates := num_disaggregates n + 1\<rparr>)))
                   else Inr (s, n))
            in (case built of
                  Inl e \<Rightarrow> Inl e
                | Inr (s1, n1) \<Rightarrow>
                    Inr (s1\<lparr>mappings := (mappings s1)
                            (disaggregate_mapping_key indicator_concept_url disaggregate_concept_url \<mapsto>
                             disaggregate_mapping indicator_concept_url disaggregate_concept_url)\<rparr>,
                         n1\<lparr>num_mappings := num_mappings n1 + 1\<rparr>,
                         urls'))))"

fun coc_loop ::
  "string \<Rightarrow> category_option_combo list \<Rightarrow> ('k, 'r) snapshot \<times> counts \<times> string list
     \<Rightarrow> error + ('k, 'r) snapshot \<times> counts \<times> string list" where
  "coc_loop indicator_concept_url [] st = Inr st"
| "coc_loop indicator_concept_url (coc # cocs) st =
     (case coc_step indicator_concept_url coc st of
        Inl e \<Rightarrow> Inl e
      | Inr st' \<Rightarrow> coc_loop indicator_concept_url cocs st')"

text \<open>
  The loop over \<open>indicator_disaggregate_concept_urls\<close> (lines 216--222). The first
  argument is \<open>get_concept_reference_json\<close>, called with the owner id, the collection
  id and the concept URL, returning the reference's key and record. The method belongs to
  the base class \<open>DatimSync\<close>; it is taken to return its pair without raising and
  without touching \<open>self.dhis2_diff\<close>.
\<close>

definition disaggregate_ref_step ::
  "(string \<Rightarrow> string \<Rightarrow> string \<Rightarrow> 'k \<times> 'r) \<Rightarrow> string \<Rightarrow> string
     \<Rightarrow> ('k, 'r) snapshot \<times> counts \<Rightarrow> ('k, 'r) snapshot \<times> counts" where
  "disaggregate_ref_step get_concept_reference_json collection_id disaggregate_concept_url st =
     (case st of (s, n) \<Rightarrow>
       (case get_concept_reference_json ''PEPFAR'' collection_id disaggregate_concept_url of
          (disaggregate_ref_key, disaggregate_ref) \<Rightarrow>
            if concept_refs s disaggregate_ref_key = None then
              (s\<lparr>concept_refs := (concept_refs s)(disaggregate_ref_key \<mapsto> disaggregate_ref)\<rparr>,
               n\<lparr>num_disaggregate_refs := num_disaggregate_refs n + 1\<rparr>)
            else (s, n)))"

fun disaggregate_ref_loop ::
  "(string \<Rightarrow> string \<Rightarrow> string \<Rightarrow> 'k \<times> 'r) \<Rightarrow> string \<Rightarrow> string list
     \<Rightarrow> ('k, 'r) snapshot \<times> counts \<Rightarrow> ('k, 'r) snapshot \<times> counts" where
  "disaggregate_ref_loop g collection_id [] st = st"
| "disaggregate_ref_loop g collection_id (url # urls) st =
     disaggregate_ref_loop g collection_id urls (disaggregate_ref_step g collection_id url st)"

text \<open>
  The body of the loop over \<open>dataSetElements\<close> (lines 200--222).
  \<open>ocl_dataset_repos\<close> is the table of the active dataset repositories: it maps a
  DHIS2 dataset id to the id of its OCL collection
  (\<open>ocl_dataset_repos[ds['id']]['id']\<close>; every entry of the table is taken to have
  its \<open>id\<close>).
\<close>

definition dse_step ::
  "(string \<Rightarrow> string \<Rightarrow> string \<Rightarrow> 'k \<times> 'r) \<Rightarrow> (string \<rightharpoonup> string) \<Rightarrow> string \<Rightarrow> string list
     \<Rightarrow> data_set_element \<Rightarrow> ('k, 'r) snapshot \<times> counts \<Rightarrow> error + ('k, 'r) snapshot \<times> counts" where
  "dse_step get_concept_reference_json ocl_dataset_repos indicator_concept_url
       indicator_disaggregate_concept_urls dse st =
     (case st of (s, n) \<Rightarrow>
       (case dataSet dse of
          None \<Rightarrow> Inl (KeyError ''dataSet'')
        | Some ds \<Rightarrow>
            (case ds_id ds of
               None \<Rightarrow> Inl (KeyError ''id'')
             | Some dataset_id \<Rightarrow>
                 (case ocl_dataset_repos dataset_id of
                    None \<Rightarrow> Inr (s, n)
                  | Some collection_id \<Rightarrow>
                      (case get_concept_reference_json ''PEPFAR'' collection_id indicator_concept_url of
                         (indicator_ref_key, indicator_ref) \<Rightarrow>
                           Inr (disaggregate_ref_loop get_concept_reference_json collection_id
                                  indicator_disaggregate_concept_urls
                                  (s\<lparr>concept_refs := (concept_refs s)(indicator_ref_key \<mapsto> indicator_ref)\<rparr>,
                                   n\<lparr>num_indicator_refs := num_indicator_refs n + 1\<rparr>)))))))"

fun dse_loop ::
  "(string \<Rightarrow> string \<Rightarrow> string \<Rightarrow> 'k \<times> 'r) \<Rightarrow> (string \<rightharpoonup> string) \<Rightarrow> string \<Rightarrow> string list
     \<Rightarrow> data_set_element list \<Rightarrow> ('k, 'r) snapshot \<times> counts \<Rightarrow> error + ('k, 'r) snapshot \<times> counts" where
  "dse_loop g repos iurl urls [] st = Inr st"
| "dse_loop g repos iurl urls (dse # dses) st =
     (case dse_step g repos iurl urls dse st of
        Inl e \<Rightarrow> Inl e
      | Inr st' \<Rightarrow> dse_loop g repos iurl urls dses st')"

text \<open>The body of the loop over \<open>dataElements\<close> (lines 101--222).\<close>

definition de_step ::
  "(string \<Rightarrow> string \<Rightarrow> string \<Rightarrow> 'k \<times> 'r) \<Rightarrow> (string \<rightharpoonup> string) \<Rightarrow> data_element
     \<Rightarrow> ('k, 'r) snapshot \<times> counts \<Rightarrow> error + ('k, 'r) snapshot \<times> counts" where
  "de_step get_concept_reference_json ocl_dataset_repos de st =
     (case st of (s, n) \<Rightarrow>
       (case de_code de of
          None \<Rightarrow> Inl (KeyError ''code'')
        | Some indicator_concept_id \<Rightarrow>
       (case de_id de of
          None \<Rightarrow> Inl (KeyError ''id'')
        | Some ext_id \<Rightarrow>
       (case de_name de of
          None \<Rightarrow> Inl (KeyError ''name'')
        | Some full_name \<Rightarrow>
       (case de_shortName de of
          None \<Rightarrow> Inl (KeyError ''shortName'')
        | Some short_name \<Rightarrow>
            let indicator_concept_url = concept_url indicator_concept_id;
                s1 = s\<lparr>concepts := (concepts s)(indicator_concept_url \<mapsto>
                        indicator_concept indicator_concept_id ext_id full_name short_name
                          (de_description de))\<rparr>;
                n1 = n\<lparr>num_indicators := num_indicators n + 1\<rparr>
            in
       (case categoryCombo de of
          None \<Rightarrow> Inl (KeyError ''categoryCombo'')
        | Some cc \<Rightarrow>
       (case categoryOptionCombos cc of
          None \<Rightarrow> Inl (KeyError ''categoryOptionCombos'')
        | Some cocs \<Rightarrow>
       (case coc_loop indicator_concept_url cocs (s1, n1, []) of
          Inl e \<Rightarrow> Inl e
        | Inr (s2, n2, indicator_disaggregate_concept_urls) \<Rightarrow>
       (case dataSetElements de of
          None \<Rightarrow> Inl (KeyError ''dataSetElements'')
        | Some dses \<Rightarrow>
            dse_loop get_concept_reference_json ocl_dataset_repos indicator_concept_url
              indicator_disaggregate_concept_urls dses (s2, n2))))))))))"

fun de_loop ::
  "(string \<Rightarrow> string \<Rightarrow> string \<Rightarrow> 'k \<times> 'r) \<Rightarrow> (string \<rightharpoonup> string) \<Rightarrow> data_element list
     \<Rightarrow> ('k, 'r) snapshot \<times> counts \<Rightarrow> error + ('k, 'r) snapshot \<times> counts" where
  "de_loop g repos [] st = Inr st"
| "de_loop g repos (de # des) st =
     (case de_step g repos de st of
        Inl e \<Rightarrow> Inl e
      | Inr st' \<Rightarrow> de_loop g repos des st')"

text \<open>
  \<open>dhis2diff_mer\<close> on a loaded export: the snapshot \<open>self.dhis2_diff\<close> is passed
  in and returned with the counters that the method logs; a raised exception is
  \<open>Inl\<close>.
\<close>

definition dhis2diff_mer ::
  "(string \<Rightarrow> string \<Rightarrow> string \<Rightarrow> 'k \<times> 'r) \<Rightarrow> (string \<rightharpoonup> string) \<Rightarrow> dhis2_export
     \<Rightarrow> ('k, 'r) snapshot \<Rightarrow> error + ('k, 'r) snapshot \<times> counts" where
  "dhis2diff_mer get_concept_reference_json ocl_dataset_repos new_dhis2_export dhis2_diff =
     (case dataElements new_dhis2_export of
        None \<Rightarrow> Inl (KeyError ''dataElements'')
      | Some des \<Rightarrow>
          de_loop get_concept_reference_json ocl_dataset_repos des (dhis2_diff, zero_counts))"

section \<open>The country indicator mapping \<open>DatimImap\<close>\<close>

definition IMAP_FIELD_NAMES :: "string list" where
  "IMAP_FIELD_NAMES =
     [''DATIM_Indicator_Category'',
      ''DATIM_Indicator_ID'',
      ''DATIM_Disag_ID'',
      ''DATIM_Disag_Name'',
      ''Operation'',
      ''MOH_Indicator_ID'',
      ''MOH_Indicator_Name'',
      ''MOH_Disag_ID'',
      ''MOH_Disag_Name'']"

type_synonym row = "string \<rightharpoonup> string"

text \<open>
  The values \<open>set_imap_data\<close> tells apart: \<open>None\<close>, a \<open>csv.DictReader\<close> (by
  the rows it yields), a list, and any other value (by its text). The elements of a list
  are taken to be rows, that is dictionaries from field names to values, as a
  \<open>csv.DictReader\<close> yields them; \<open>field_name not in row\<close> is \<open>row field_name = None\<close>.
\<close>

datatype imap_arg = PyNone | DictReader "row list" | PyList "row list" | PyOther string

datatype imap_error = CannotSetImapData imap_arg | MissingField string nat

record datim_imap =
  country_code :: string
  country_org :: string
  period :: string
  imap_data :: "row list option"

fun append_rows :: "row list \<Rightarrow> row list \<Rightarrow> row list" where
  "append_rows acc [] = acc"
| "append_rows acc (r # rs) = append_rows (acc @ [r]) rs"

text \<open>
  A method that mutates \<open>self\<close> and may raise returns the outcome together with
  the object as the call leaves it.
\<close>

definition set_imap_data :: "datim_imap \<Rightarrow> imap_arg \<Rightarrow> (imap_error + unit) \<times> datim_imap" where
  "set_imap_data self arg =
     (case arg of
        DictReader rows \<Rightarrow> (Inr (), self\<lparr>imap_data := Some (append_rows [] rows)\<rparr>)
      | PyList rows \<Rightarrow> (Inr (), self\<lparr>imap_data := Some rows\<rparr>)
      | _ \<Rightarrow> (Inl (CannotSetImapData arg), self))"

definition DatimImap_init ::
  "string \<Rightarrow> string \<Rightarrow> string \<Rightarrow> imap_arg \<Rightarrow> (imap_error + unit) \<times> datim_imap" where
  "DatimImap_init cc org per arg =
     set_imap_data \<lparr>country_code = cc, country_org = org, period = per, imap_data = None\<rparr> arg"

text \<open>
  The inner loop of \<open>is_valid\<close> over the field names: \<open>Some\<close> is the method
  leaving the loop (raising or returning \<open>False\<close>), \<open>None\<close> the loop running to
  its end.
\<close>

fun fields_loop :: "bool \<Rightarrow> nat \<Rightarrow> row \<Rightarrow> string list \<Rightarrow> (imap_error + bool) option" where
  "fields_loop throw_exception_on_error line_number r [] = None"
| "fields_loop throw_exception_on_error line_number r (field_name # fs) =
     (if r field_name = None then
        (if throw_exception_on_error then Some (Inl (MissingField field_name line_number))
         else Some (Inr False))
      else fields_loop throw_exception_on_error line_number r fs)"

fun rows_loop :: "bool \<Rightarrow> nat \<Rightarrow> row list \<Rightarrow> imap_error + bool" where
  "rows_loop throw_exception_on_error line_number [] = Inr True"
| "rows_loop throw_exception_on_error line_number (r # rs) =
     (case fields_loop throw_exception_on_error (line_number + 1) r IMAP_FIELD_NAMES of
        Some res \<Rightarrow> res
      | None \<Rightarrow> rows_loop throw_exception_on_error (line_number + 1) rs)"

definition is_valid :: "datim_imap \<Rightarrow> bool \<Rightarrow> imap_error + bool" where
  "is_valid self throw_exception_on_error =
     (case imap_data self of
        None \<Rightarrow> Inr False
      | Some rows \<Rightarrow>
          if rows \<noteq> [] then rows_loop throw_exception_on_error 0 rows else Inr False)"

definition is_valid_imap_period :: "string \<Rightarrow> bool" where
  "is_valid_imap_period per = (if per = ''FY17'' then True else False)"

section \<open>The writes of a run\<close>

text \<open>
  For the proofs, a run of \<open>dhis2diff_mer\<close> is also described by the list of writes
  it performs on the snapshot, in order: an unconditional store into a partition, a store
  guarded by \<open>key not in\<close>, or a raised exception. The value of a guarded concept
  store is built only when the key is absent, so it carries the exception that building
  it would raise.
\<close>

datatype ('k, 'r) op =
    PutConcept string concept
  | NewConcept string "error + concept"
  | PutMapping string mapping
  | PutRef 'k 'r
  | NewRef 'k 'r
  | Raise error

fun apply_op :: "('k, 'r) op \<Rightarrow> ('k, 'r) snapshot \<Rightarrow> error + ('k, 'r) snapshot" where
  "apply_op (PutConcept k c) s = Inr (s\<lparr>concepts := (concepts s)(k \<mapsto> c)\<rparr>)"
| "apply_op (NewConcept k v) s =
     (if concepts s k = None then
        (case v of Inl e \<Rightarrow> Inl e | Inr c \<Rightarrow> Inr (s\<lparr>concepts := (concepts s)(k \<mapsto> c)\<rparr>))
      else Inr s)"
| "apply_op (PutMapping k m) s = Inr (s\<lparr>mappings := (mappings s)(k \<mapsto> m)\<rparr>)"
| "apply_op (PutRef k r) s = Inr (s\<lparr>concept_refs := (concept_refs s)(k \<mapsto> r)\<rparr>)"
| "apply_op (NewRef k r) s =
     (if concept_refs s k = None then Inr (s\<lparr>concept_refs := (concept_refs s)(k \<mapsto> r)\<rparr>)
      else Inr s)"
| "apply_op (Raise e) s = Inl e"

fun apply_ops :: "('k, 'r) op list \<Rightarrow> ('k, 'r) snapshot \<Rightarrow> error + ('k, 'r) snapshot" where
  "apply_ops [] s = Inr s"
| "apply_ops (x # xs) s = (case apply_op x s of Inl e \<Rightarrow> Inl e | Inr s' \<Rightarrow> apply_ops xs s')"

definition coc_ops :: "string \<Rightarrow> category_option_combo \<Rightarrow> ('k, 'r) op list" where
  "coc_ops iurl coc =
     (case coc_code coc of
        None \<Rightarrow> [Raise (KeyError ''code'')]
      | Some d \<Rightarrow>
          [NewConcept (concept_url d)
             (case coc_id coc of
                None \<Rightarrow> Inl (KeyError ''id'')
              | Some i \<Rightarrow>
                  (case coc_name coc of
                     None \<Rightarrow> Inl (KeyError ''name'')
                   | Some nm \<Rightarrow> Inr (disaggregate_concept d i nm))),
           PutMapping (disaggregate_mapping_key iurl (concept_url d))
             (disaggregate_mapping iurl (concept_url d))])"

definition coc_urls :: "category_option_combo list \<Rightarrow> string list" where
  "coc_urls cocs =
     concat (map (\<lambda>coc. case coc_code coc of None \<Rightarrow> [] | Some d \<Rightarrow> [concept_url d]) cocs)"

definition dse_ops ::
  "(string \<Rightarrow> string \<Rightarrow> string \<Rightarrow> 'k \<times> 'r) \<Rightarrow> (string \<rightharpoonup> string) \<Rightarrow> string \<Rightarrow> string list
     \<Rightarrow> data_set_element \<Rightarrow> ('k, 'r) op list" where
  "dse_ops g repos iurl urls dse =
     (case dataSet dse of
        None \<Rightarrow> [Raise (KeyError ''dataSet'')]
      | Some ds \<Rightarrow>
          (case ds_id ds of
             None \<Rightarrow> [Raise (KeyError ''id'')]
           | Some i \<Rightarrow>
               (case repos i of
                  None \<Rightarrow> []
                | Some col \<Rightarrow>
                    PutRef (fst (g ''PEPFAR'' col iurl)) (snd (g ''PEPFAR'' col iurl)) #
                    map (\<lambda>u. NewRef (fst (g ''PEPFAR'' col u)) (snd (g ''PEPFAR'' col u))) urls)))"

definition de_ops ::
  "(string \<Rightarrow> string \<Rightarrow> string \<Rightarrow> 'k \<times> 'r) \<Rightarrow> (string \<rightharpoonup> string) \<Rightarrow> data_element
     \<Rightarrow> ('k, 'r) op list" where
  "de_ops g repos de =
     (case de_code de of
        None \<Rightarrow> [Raise (KeyError ''code'')]
      | Some c \<Rightarrow>
     (case de_id de of
        None \<Rightarrow> [Raise (KeyError ''id'')]
      | Some i \<Rightarrow>
     (case de_name de of
        None \<Rightarrow> [Raise (KeyError ''name'')]
      | Some nm \<Rightarrow>
     (case de_shortName de of
        None \<Rightarrow> [Raise (KeyError ''shortName'')]
      | Some sn \<Rightarrow>
          PutConcept (concept_url c) (indicator_concept c i nm sn (de_description de)) #
     (case categoryCombo de of
        None \<Rightarrow> [Raise (KeyError ''categoryCombo'')]
      | Some cc \<Rightarrow>
     (case categoryOptionCombos cc of
        None \<Rightarrow> [Raise (KeyError ''categoryOptionCombos'')]
      | Some cocs \<Rightarrow>
          concat (map (coc_ops (concept_url c)) cocs) @
     (case dataSetElements de of
        None \<Rightarrow> [Raise (KeyError ''dataSetElements'')]
      | Some dses \<Rightarrow>
          concat (map (dse_ops g repos (concept_url c) (coc_urls cocs)) dses))))))))"

definition export_ops ::
  "(string \<Rightarrow> string \<Rightarrow> string \<Rightarrow> 'k \<times> 'r) \<Rightarrow> (string \<rightharpoonup> string) \<Rightarrow> data_element list
     \<Rightarrow> ('k, 'r) op list" where
  "export_ops g repos des = concat (map (de_ops g repos) des)"

definition drop_counts :: "error + ('k, 'r) snapshot \<times> counts \<Rightarrow> error + ('k, 'r) snapshot" where
  "drop_counts res = (case res of Inl e \<Rightarrow> Inl e | Inr (s, n) \<Rightarrow> Inr s)"

fun cput :: "('k, 'r) op \<Rightarrow> string set" where
  "cput (PutConcept k c) = {k}"
| "cput _ = {}"

fun mput :: "('k, 'r) op \<Rightarrow> string set" where
  "mput (PutMapping k m) = {k}"
| "mput _ = {}"

fun rput :: "('k, 'r) op \<Rightarrow> 'k set" where
  "rput (PutRef k r) = {k}"
| "rput _ = {}"

definition disaggregate_of :: "string \<Rightarrow> category_option_combo \<Rightarrow> error + concept" where
  "disaggregate_of d coc =
     (case coc_id coc of
        None \<Rightarrow> Inl (KeyError ''id'')
      | Some i \<Rightarrow>
          (case coc_name coc of
             None \<Rightarrow> Inl (KeyError ''name'')
           | Some nm \<Rightarrow> Inr (disaggregate_concept d i nm)))"

fun first_new :: "string \<Rightarrow> ('k, 'r) op list \<Rightarrow> (error + concept) option" where
  "first_new k [] = None"
| "first_new k (NewConcept k' v # xs) = (if k' = k then Some v else first_new k xs)"
| "first_new k (x # xs) = first_new k xs"

definition stable :: "('k, 'r) op list \<Rightarrow> ('k, 'r) snapshot \<Rightarrow> ('k, 'r) snapshot \<Rightarrow> bool" where
  "stable ops u t \<longleftrightarrow>
     dom (concepts t) = dom (concepts u) \<and>
     dom (mappings t) = dom (mappings u) \<and>
     dom (concept_refs t) = dom (concept_refs u) \<and>
     (\<forall>k. k \<notin> (\<Union>x\<in>set ops. cput x) \<longrightarrow> concepts t k = concepts u k) \<and>
     (\<forall>k. k \<notin> (\<Union>x\<in>set ops. mput x) \<longrightarrow> mappings t k = mappings u k) \<and>
     (\<forall>k. k \<notin> (\<Union>x\<in>set ops. rput x) \<longrightarrow> concept_refs t k = concept_refs u k)"

section \<open>Predicates of the specification\<close>

text \<open>
  The notions the claims are stated with: a row with every field of
  \<open>IMAP_FIELD_NAMES\<close>; an argument that is a \<open>csv.DictReader\<close> or a list; the
  category-option-combos of a data element and of an export, in the order the loops visit
  them; a snapshot whose mappings refer to concepts of the snapshot only; a dataset-element
  link whose dataset id is read and is not in the table of dataset repositories; and an
  export without such links.
\<close>

definition has_all_fields :: "row \<Rightarrow> bool" where
  "has_all_fields r = (\<forall>f\<in>set IMAP_FIELD_NAMES. r f \<noteq> None)"

definition is_reader_or_list :: "imap_arg \<Rightarrow> bool" where
  "is_reader_or_list arg = (case arg of DictReader _ \<Rightarrow> True | PyList _ \<Rightarrow> True | _ \<Rightarrow> False)"

definition de_cocs :: "data_element \<Rightarrow> category_option_combo list" where
  "de_cocs de =
     (case categoryCombo de of
        None \<Rightarrow> []
      | Some cc \<Rightarrow> (case categoryOptionCombos cc of None \<Rightarrow> [] | Some cocs \<Rightarrow> cocs))"

definition all_cocs :: "data_element list \<Rightarrow> category_option_combo list" where
  "all_cocs des = concat (map de_cocs des)"

definition mappings_closed :: "('k, 'r) snapshot \<Rightarrow> bool" where
  "mappings_closed s \<longleftrightarrow>
     (\<forall>k m. mappings s k = Some m \<longrightarrow>
        concepts s (from_concept_url m) \<noteq> None \<and> concepts s (to_concept_url m) \<noteq> None)"

definition unknown_dataset :: "(string \<rightharpoonup> string) \<Rightarrow> data_set_element \<Rightarrow> bool" where
  "unknown_dataset repos dse =
     (case dataSet dse of
        None \<Rightarrow> False
      | Some ds \<Rightarrow> (case ds_id ds of None \<Rightarrow> False | Some dataset_id \<Rightarrow> repos dataset_id = None))"

definition without_unknown_datasets :: "(string \<rightharpoonup> string) \<Rightarrow> dhis2_export \<Rightarrow> dhis2_export" where
  "without_unknown_datasets repos export =
     export\<lparr>dataElements :=
       map_option
         (map (\<lambda>de. de\<lparr>dataSetElements :=
            map_option (filter (\<lambda>dse. \<not> unknown_dataset repos dse)) (dataSetElements de)\<rparr>))
         (dataElements export)\<rparr>"

section \<open>Concrete inputs\<close>

text \<open>
  Modelled from the spec: \<open>get_concept_reference_json\<close> for the concrete runs below
  (the method is defined in the module \<open>datimsync\<close>, not part of the verified
  files). The record has the fields of the specification's Reference Record
  \<open>{owner, collection_id, concept_url}\<close>; the key joins the arguments of
  \<open>make_reference_key(owner, collection_id, concept_url)\<close> in the style of the other
  resource keys.
\<close>

record reference =
  r_owner :: string
  r_collection_id :: string
  r_concept_url :: string

definition example_reference_json :: "string \<Rightarrow> string \<Rightarrow> string \<Rightarrow> string \<times> reference" where
  "example_reference_json owner_id collection_id url =
     (''/orgs/'' @ owner_id @ ''/collections/'' @ collection_id @ ''/references/?concept='' @ url,
      \<lparr>r_owner = owner_id, r_collection_id = collection_id, r_concept_url = url\<rparr>)"

text \<open>The scenario of the specification: dataset \<open>dsA\<close> is mapped to collection \<open>COL1\<close>.\<close>

definition example_repos :: "string \<rightharpoonup> string" where
  "example_repos = [''dsA'' \<mapsto> ''COL1'']"

definition make_coc :: "string \<Rightarrow> string \<Rightarrow> string \<Rightarrow> category_option_combo" where
  "make_coc i c nm = \<lparr>coc_id = Some i, coc_code = Some c, coc_name = Some nm\<rparr>"

definition make_de :: "string \<Rightarrow> string \<Rightarrow> string \<Rightarrow> string \<Rightarrow> category_option_combo list \<Rightarrow> string list \<Rightarrow> data_element" where
  "make_de i c nm sn cocs dsids =
     \<lparr>de_id = Some i, de_code = Some c, de_name = Some nm, de_shortName = Some sn,
      de_description = None,
      categoryCombo = Some \<lparr>categoryOptionCombos = Some cocs\<rparr>,
      dataSetElements = Some (map (\<lambda>d. \<lparr>dataSet = Some \<lparr>ds_id = Some d\<rparr>\<rparr>) dsids)\<rparr>"

definition scenario_export :: dhis2_export where
  "scenario_export =
     \<lparr>dataElements = Some [make_de ''de1'' ''TX_NEW'' ''New on ART'' ''TX_NEW'' [make_coc ''coc1'' ''Age_15+'' ''15+''] [''dsA'']]\<rparr>"

definition scenario_snapshot :: "(string, reference) snapshot" where
  "scenario_snapshot =
     \<lparr>concepts = [concept_url ''TX_NEW'' \<mapsto> indicator_concept ''TX_NEW'' ''de1'' ''New on ART'' ''TX_NEW'' None,
                  concept_url ''Age_15+'' \<mapsto> disaggregate_concept ''Age_15+'' ''coc1'' ''15+''],
      mappings = [disaggregate_mapping_key (concept_url ''TX_NEW'') (concept_url ''Age_15+'') \<mapsto>
                    disaggregate_mapping (concept_url ''TX_NEW'') (concept_url ''Age_15+'')],
      concept_refs = [fst (example_reference_json ''PEPFAR'' ''COL1'' (concept_url ''TX_NEW'')) \<mapsto>
                        snd (example_reference_json ''PEPFAR'' ''COL1'' (concept_url ''TX_NEW'')),
                      fst (example_reference_json ''PEPFAR'' ''COL1'' (concept_url ''Age_15+'')) \<mapsto>
                        snd (example_reference_json ''PEPFAR'' ''COL1'' (concept_url ''Age_15+''))]\<rparr>"

definition example_row :: row where
  "example_row =
     [''DATIM_Indicator_Category'' \<mapsto> ''HTS_TST'',
      ''DATIM_Indicator_ID'' \<mapsto> ''HTS_TST_N_MOH'',
      ''DATIM_Disag_ID'' \<mapsto> ''HllvX50cXC0'',
      ''DATIM_Disag_Name'' \<mapsto> ''Total'',
      ''Operation'' \<mapsto> ''ADD'',
      ''MOH_Indicator_ID'' \<mapsto> ''INDHTC-108c'',
      ''MOH_Indicator_Name'' \<mapsto> ''HIV tested'',
      ''MOH_Disag_ID'' \<mapsto> ''Tested'',
      ''MOH_Disag_Name'' \<mapsto> ''Tested'']"

definition example_row_no_operation :: row where
  "example_row_no_operation = example_row(''Operation'' := None)"

definition example_imap :: "row list option \<Rightarrow> datim_imap" where
  "example_imap data =
     \<lparr>country_code = ''UG'', country_org = ''DATIM-MOH-UG'', period = ''FY17'', imap_data = data\<rparr>"

definition scenario_de :: "string \<Rightarrow> string list \<Rightarrow> data_element" where
  "scenario_de coc_c dsids =
     make_de ''de1'' ''TX_NEW'' ''New on ART'' ''TX_NEW'' [make_coc ''coc1'' coc_c ''15+''] dsids"

definition unknown_link_snapshot :: "(string, reference) snapshot" where
  "unknown_link_snapshot =
     \<lparr>concepts = [concept_url ''TX_NEW'' \<mapsto> indicator_concept ''TX_NEW'' ''de1'' ''New on ART'' ''TX_NEW'' None,
                  concept_url ''Age_15+'' \<mapsto> disaggregate_concept ''Age_15+'' ''coc1'' ''15+''],
      mappings = [disaggregate_mapping_key (concept_url ''TX_NEW'') (concept_url ''Age_15+'') \<mapsto>
                    disaggregate_mapping (concept_url ''TX_NEW'') (concept_url ''Age_15+'')],
      concept_refs = Map.empty\<rparr>"

definition same_code_snapshot :: "(string, reference) snapshot" where
  "same_code_snapshot =
     \<lparr>concepts = [concept_url ''TX_NEW'' \<mapsto> indicator_concept ''TX_NEW'' ''de1'' ''New on ART'' ''TX_NEW'' None],
      mappings = [disaggregate_mapping_key (concept_url ''TX_NEW'') (concept_url ''TX_NEW'') \<mapsto>
                    disaggregate_mapping (concept_url ''TX_NEW'') (concept_url ''TX_NEW'')],
      concept_refs = [fst (example_reference_json ''PEPFAR'' ''COL1'' (concept_url ''TX_NEW'')) \<mapsto>
                        snd (example_reference_json ''PEPFAR'' ''COL1'' (concept_url ''TX_NEW''))]\<rparr>"

definition shared_export :: dhis2_export where
  "shared_export =
     \<lparr>dataElements = Some
        [make_de ''de1'' ''TX_NEW'' ''New on ART'' ''TX_NEW'' [make_coc ''coc1'' ''Age_15+'' ''15+''] [],
         make_de ''de2'' ''TX_CURR'' ''Current on ART'' ''TX_CURR''
           [make_coc ''coc2'' ''Age_15+'' ''15 and over''] []]\<rparr>"

definition shared_snapshot :: "(string, reference) snapshot" where
  "shared_snapshot =
     \<lparr>concepts =
        [concept_url ''TX_NEW'' \<mapsto> indicator_concept ''TX_NEW'' ''de1'' ''New on ART'' ''TX_NEW'' None,
         concept_url ''Age_15+'' \<mapsto> disaggregate_concept ''Age_15+'' ''coc1'' ''15+'',
         concept_url ''TX_CURR'' \<mapsto> indicator_concept ''TX_CURR'' ''de2'' ''Current on ART'' ''TX_CURR'' None],
      mappings =
        [disaggregate_mapping_key (concept_url ''TX_NEW'') (concept_url ''Age_15+'') \<mapsto>
           disaggregate_mapping (concept_url ''TX_NEW'') (concept_url ''Age_15+''),
         disaggregate_mapping_key (concept_url ''TX_CURR'') (concept_url ''Age_15+'') \<mapsto>
           disaggregate_mapping (concept_url ''TX_CURR'') (concept_url ''Age_15+'')],
      concept_refs = Map.empty\<rparr>"

definition code_clash_export :: dhis2_export where
  "code_clash_export =
     \<lparr>dataElements = Some
        [make_de ''de1'' ''TX_NEW'' ''New on ART'' ''TX_NEW'' [make_coc ''coc1'' ''TX_CURR'' ''Current''] [],
         make_de ''de2'' ''TX_CURR'' ''Current on ART'' ''TX_CURR''
           [make_coc ''coc1'' ''TX_CURR'' ''Current''] []]\<rparr>"

definition code_clash_snapshot :: "(string, reference) snapshot" where
  "code_clash_snapshot =
     \<lparr>concepts =
        [concept_url ''TX_NEW'' \<mapsto> indicator_concept ''TX_NEW'' ''de1'' ''New on ART'' ''TX_NEW'' None,
         concept_url ''TX_CURR'' \<mapsto> indicator_concept ''TX_CURR'' ''de2'' ''Current on ART'' ''TX_CURR'' None],
      mappings =
        [disaggregate_mapping_key (concept_url ''TX_NEW'') (concept_url ''TX_CURR'') \<mapsto>
           disaggregate_mapping (concept_url ''TX_NEW'') (concept_url ''TX_CURR''),
         disaggregate_mapping_key (concept_url ''TX_CURR'') (concept_url ''TX_CURR'') \<mapsto>
           disaggregate_mapping (concept_url ''TX_CURR'') (concept_url ''TX_CURR'')],
      concept_refs = Map.empty\<rparr>"

section \<open>Runs as lists of writes\<close>

lemma apply_ops_append:
  "apply_ops (xs @ ys) s = (case apply_ops xs s of Inl e \<Rightarrow> Inl e | Inr s' \<Rightarrow> apply_ops ys s')"
  by (induction xs arbitrary: s) (auto split: sum.splits)

lemma coc_step_ops:
  "(case coc_step iurl coc (s, n, urls) of Inl e \<Rightarrow> Inl e | Inr (s', n', urls') \<Rightarrow> Inr (s', urls')) =
   (case apply_ops (coc_ops iurl coc) s of Inl e \<Rightarrow> Inl e | Inr s' \<Rightarrow> Inr (s', urls @ coc_urls [coc]))"
  by (simp add: coc_step_def coc_ops_def coc_urls_def Let_def split: option.splits sum.splits)

lemma coc_urls_Cons: "coc_urls (coc # cocs) = coc_urls [coc] @ coc_urls cocs"
  by (simp add: coc_urls_def)

lemma coc_loop_ops:
  "(case coc_loop iurl cocs (s, n, urls) of Inl e \<Rightarrow> Inl e | Inr (s', n', urls') \<Rightarrow> Inr (s', urls')) =
   (case apply_ops (concat (map (coc_ops iurl) cocs)) s of
      Inl e \<Rightarrow> Inl e | Inr s' \<Rightarrow> Inr (s', urls @ coc_urls cocs))"
proof (induction cocs arbitrary: s n urls)
  case Nil
  then show ?case by (simp add: coc_urls_def)
next
  case (Cons coc cocs)
  show ?case
  proof (cases "coc_step iurl coc (s, n, urls)")
    case (Inl e)
    then show ?thesis using coc_step_ops[of iurl coc s n urls]
      by (simp add: apply_ops_append split: sum.splits)
  next
    case (Inr st)
    obtain s1 n1 u1 where st: "st = (s1, n1, u1)" by (cases st)
    have a: "apply_ops (coc_ops iurl coc) s = Inr s1" and u: "u1 = urls @ coc_urls [coc]"
      using coc_step_ops[of iurl coc s n urls] Inr st by (simp_all split: sum.splits)
    show ?thesis using Cons.IH[of s1 n1 "urls @ coc_urls [coc]"] Inr st a u
      by (simp add: apply_ops_append coc_urls_Cons[of coc cocs] split: sum.splits)
  qed
qed


lemma disaggregate_ref_loop_ops:
  "Inr (fst (disaggregate_ref_loop g col urls (s, n))) =
   apply_ops (map (\<lambda>u. NewRef (fst (g ''PEPFAR'' col u)) (snd (g ''PEPFAR'' col u))) urls) s"
proof (induction urls arbitrary: s n)
  case Nil
  then show ?case by simp
next
  case (Cons u urls)
  obtain s1 n1 where st: "disaggregate_ref_step g col u (s, n) = (s1, n1)"
    by (cases "disaggregate_ref_step g col u (s, n)")
  then have "apply_op (NewRef (fst (g ''PEPFAR'' col u)) (snd (g ''PEPFAR'' col u))) s = Inr s1"
    by (auto simp: disaggregate_ref_step_def split: prod.splits if_splits)
  then show ?case using Cons.IH[of s1 n1] st by simp
qed

lemma dse_step_ops:
  "drop_counts (dse_step g repos iurl urls dse (s, n)) = apply_ops (dse_ops g repos iurl urls dse) s"
  by (simp add: dse_step_def dse_ops_def drop_counts_def disaggregate_ref_loop_ops case_prod_beta
        split: option.splits)

lemma dse_loop_ops:
  "drop_counts (dse_loop g repos iurl urls dses (s, n)) =
   apply_ops (concat (map (dse_ops g repos iurl urls) dses)) s"
proof (induction dses arbitrary: s n)
  case Nil
  then show ?case by (simp add: drop_counts_def)
next
  case (Cons dse dses)
  show ?case
  proof (cases "dse_step g repos iurl urls dse (s, n)")
    case (Inl e)
    then have "apply_ops (dse_ops g repos iurl urls dse) s = Inl e"
      using dse_step_ops[of g repos iurl urls dse s n] by (simp add: drop_counts_def)
    then show ?thesis using Inl by (simp add: apply_ops_append drop_counts_def)
  next
    case (Inr st)
    obtain s1 n1 where st: "st = (s1, n1)" by (cases st)
    have "apply_ops (dse_ops g repos iurl urls dse) s = Inr s1"
      using dse_step_ops[of g repos iurl urls dse s n] Inr st by (simp add: drop_counts_def)
    then show ?thesis using Cons.IH[of s1 n1] Inr st by (simp add: apply_ops_append)
  qed
qed

lemma de_step_ops:
  "drop_counts (de_step g repos de (s, n)) = apply_ops (de_ops g repos de) s"
proof (cases "\<exists>c i nm sn cc cocs. de_code de = Some c \<and> de_id de = Some i \<and> de_name de = Some nm \<and>
    de_shortName de = Some sn \<and> categoryCombo de = Some cc \<and> categoryOptionCombos cc = Some cocs")
  case False
  then show ?thesis
    by (auto simp: de_step_def de_ops_def drop_counts_def Let_def split: option.splits)
next
  case True
  then obtain c i nm sn cc cocs where f: "de_code de = Some c" "de_id de = Some i" "de_name de = Some nm"
    "de_shortName de = Some sn" "categoryCombo de = Some cc" "categoryOptionCombos cc = Some cocs"
    by blast
  define s1 where "s1 = s\<lparr>concepts := (concepts s)(concept_url c \<mapsto>
                        indicator_concept c i nm sn (de_description de))\<rparr>"
  define n1 where "n1 = n\<lparr>num_indicators := num_indicators n + 1\<rparr>"
  note cl = coc_loop_ops[of "concept_url c" cocs s1 n1 "[]"]
  show ?thesis
  proof (cases "coc_loop (concept_url c) cocs (s1, n1, [])")
    case (Inl e)
    then have "apply_ops (concat (map (coc_ops (concept_url c)) cocs)) s1 = Inl e"
      using cl by (simp split: sum.splits)
    then show ?thesis using Inl f
      by (simp add: de_step_def de_ops_def drop_counts_def Let_def apply_ops_append s1_def n1_def)
  next
    case (Inr st)
    obtain s2 n2 u2 where st: "st = (s2, n2, u2)" by (cases st)
    have a: "apply_ops (concat (map (coc_ops (concept_url c)) cocs)) s1 = Inr s2" and u: "u2 = coc_urls cocs"
      using cl Inr st by (simp_all split: sum.splits)
    show ?thesis
    proof (cases "dataSetElements de")
      case None
      then show ?thesis using Inr st f a
        by (simp add: de_step_def de_ops_def drop_counts_def Let_def apply_ops_append s1_def n1_def)
    next
      case (Some dses)
      then show ?thesis using Inr st f a u dse_loop_ops[of g repos "concept_url c" "coc_urls cocs" dses s2 n2]
        by (simp add: de_step_def de_ops_def Let_def apply_ops_append s1_def n1_def)
    qed
  qed
qed

lemma de_loop_ops:
  "drop_counts (de_loop g repos des (s, n)) = apply_ops (export_ops g repos des) s"
proof (induction des arbitrary: s n)
  case Nil
  then show ?case by (simp add: drop_counts_def export_ops_def)
next
  case (Cons de des)
  show ?case
  proof (cases "de_step g repos de (s, n)")
    case (Inl e)
    then have "apply_ops (de_ops g repos de) s = Inl e"
      using de_step_ops[of g repos de s n] by (simp add: drop_counts_def)
    then show ?thesis using Inl by (simp add: apply_ops_append drop_counts_def export_ops_def)
  next
    case (Inr st)
    obtain s1 n1 where st: "st = (s1, n1)" by (cases st)
    have "apply_ops (de_ops g repos de) s = Inr s1"
      using de_step_ops[of g repos de s n] Inr st by (simp add: drop_counts_def)
    then show ?thesis using Cons.IH[of s1 n1] Inr st by (simp add: apply_ops_append export_ops_def)
  qed
qed

lemma apply_op_dom:
  assumes "apply_op x s = Inr s'"
  shows "dom (concepts s) \<subseteq> dom (concepts s')"
    and "dom (mappings s) \<subseteq> dom (mappings s')"
    and "dom (concept_refs s) \<subseteq> dom (concept_refs s')"
  using assms by (cases x; auto split: if_splits sum.splits)+

lemma apply_ops_dom:
  assumes "apply_ops xs s = Inr s'"
  shows "dom (concepts s) \<subseteq> dom (concepts s')"
    and "dom (mappings s) \<subseteq> dom (mappings s')"
    and "dom (concept_refs s) \<subseteq> dom (concept_refs s')"
  using assms
proof (induction xs arbitrary: s)
  case Nil
  { case 1 then show ?case by simp }
  { case 2 then show ?case by simp }
  { case 3 then show ?case by simp }
next
  case (Cons x xs)
  { case 1
    then obtain s1 where a: "apply_op x s = Inr s1" "apply_ops xs s1 = Inr s'"
      by (auto split: sum.splits)
    then show ?case using apply_op_dom(1)[OF a(1)] Cons.IH(1)[OF a(2)] by blast }
  { case 2
    then obtain s1 where a: "apply_op x s = Inr s1" "apply_ops xs s1 = Inr s'"
      by (auto split: sum.splits)
    then show ?case using apply_op_dom(2)[OF a(1)] Cons.IH(2)[OF a(2)] by blast }
  { case 3
    then obtain s1 where a: "apply_op x s = Inr s1" "apply_ops xs s1 = Inr s'"
      by (auto split: sum.splits)
    then show ?case using apply_op_dom(3)[OF a(1)] Cons.IH(3)[OF a(2)] by blast }
qed

lemma apply_op_keep:
  assumes "apply_op x s = Inr s'"
  shows "k \<notin> cput x \<Longrightarrow> concepts s k = Some c \<Longrightarrow> concepts s' k = Some c"
    and "km \<notin> mput x \<Longrightarrow> mappings s km = Some m \<Longrightarrow> mappings s' km = Some m"
    and "kr \<notin> rput x \<Longrightarrow> concept_refs s kr = Some r \<Longrightarrow> concept_refs s' kr = Some r"
  using assms by (cases x; auto split: if_splits sum.splits)+

lemma apply_ops_keep_concept:
  "apply_ops xs s = Inr s' \<Longrightarrow> k \<notin> (\<Union>x\<in>set xs. cput x) \<Longrightarrow> concepts s k = Some c
     \<Longrightarrow> concepts s' k = Some c"
proof (induction xs arbitrary: s)
  case Nil
  then show ?case by simp
next
  case (Cons x xs)
  then obtain s1 where a: "apply_op x s = Inr s1" "apply_ops xs s1 = Inr s'"
    by (auto split: sum.splits)
  have "concepts s1 k = Some c" using apply_op_keep(1)[OF a(1), of k c] Cons.prems by simp
  then show ?case using Cons.IH[OF a(2)] Cons.prems by simp
qed

lemma apply_ops_keep_mapping:
  "apply_ops xs s = Inr s' \<Longrightarrow> k \<notin> (\<Union>x\<in>set xs. mput x) \<Longrightarrow> mappings s k = Some c
     \<Longrightarrow> mappings s' k = Some c"
proof (induction xs arbitrary: s)
  case Nil
  then show ?case by simp
next
  case (Cons x xs)
  then obtain s1 where a: "apply_op x s = Inr s1" "apply_ops xs s1 = Inr s'"
    by (auto split: sum.splits)
  have "mappings s1 k = Some c" using apply_op_keep(2)[OF a(1), of k c] Cons.prems by simp
  then show ?case using Cons.IH[OF a(2)] Cons.prems by simp
qed

lemma apply_ops_keep_ref:
  "apply_ops xs s = Inr s' \<Longrightarrow> k \<notin> (\<Union>x\<in>set xs. rput x) \<Longrightarrow> concept_refs s k = Some c
     \<Longrightarrow> concept_refs s' k = Some c"
proof (induction xs arbitrary: s)
  case Nil
  then show ?case by simp
next
  case (Cons x xs)
  then obtain s1 where a: "apply_op x s = Inr s1" "apply_ops xs s1 = Inr s'"
    by (auto split: sum.splits)
  have "concept_refs s1 k = Some c" using apply_op_keep(3)[OF a(1), of k c] Cons.prems by simp
  then show ?case using Cons.IH[OF a(2)] Cons.prems by simp
qed

lemma stable_step:
  assumes x: "apply_op x t = Inr t1" and xs: "apply_ops xs t1 = Inr u" and st: "stable (x # xs) u t'"
  shows "\<exists>t1'. apply_op x t' = Inr t1' \<and> stable xs u t1'"
proof (cases x)
  case (PutConcept k c)
  have t1: "concepts t1 k = Some c" using x PutConcept by auto
  have "k \<in> dom (concepts u)" using apply_ops_dom(1)[OF xs] t1 by auto
  moreover have "k \<notin> (\<Union>x\<in>set xs. cput x) \<Longrightarrow> concepts u k = Some c"
    using apply_ops_keep_concept[OF xs _ t1] by simp
  ultimately have "stable xs u (t'\<lparr>concepts := (concepts t')(k \<mapsto> c)\<rparr>)"
    using st PutConcept unfolding stable_def by auto
  then show ?thesis using PutConcept by simp
next
  case (NewConcept k v)
  have "k \<in> dom (concepts t1)" using x NewConcept by (auto split: if_splits sum.splits)
  then have "k \<in> dom (concepts u)" using apply_ops_dom(1)[OF xs] by auto
  then have "concepts t' k \<noteq> None" using st unfolding stable_def by auto
  then have "apply_op x t' = Inr t'" using NewConcept by auto
  moreover have "stable xs u t'" using st NewConcept unfolding stable_def by simp
  ultimately show ?thesis by simp
next
  case (PutMapping k m)
  have t1: "mappings t1 k = Some m" using x PutMapping by auto
  have "k \<in> dom (mappings u)" using apply_ops_dom(2)[OF xs] t1 by auto
  moreover have "k \<notin> (\<Union>x\<in>set xs. mput x) \<Longrightarrow> mappings u k = Some m"
    using apply_ops_keep_mapping[OF xs _ t1] by simp
  ultimately have "stable xs u (t'\<lparr>mappings := (mappings t')(k \<mapsto> m)\<rparr>)"
    using st PutMapping unfolding stable_def by auto
  then show ?thesis using PutMapping by simp
next
  case (PutRef k r)
  have t1: "concept_refs t1 k = Some r" using x PutRef by auto
  have "k \<in> dom (concept_refs u)" using apply_ops_dom(3)[OF xs] t1 by auto
  moreover have "k \<notin> (\<Union>x\<in>set xs. rput x) \<Longrightarrow> concept_refs u k = Some r"
    using apply_ops_keep_ref[OF xs _ t1] by simp
  ultimately have "stable xs u (t'\<lparr>concept_refs := (concept_refs t')(k \<mapsto> r)\<rparr>)"
    using st PutRef unfolding stable_def by auto
  then show ?thesis using PutRef by simp
next
  case (NewRef k r)
  have "k \<in> dom (concept_refs t1)" using x NewRef by (auto split: if_splits)
  then have "k \<in> dom (concept_refs u)" using apply_ops_dom(3)[OF xs] by auto
  then have "concept_refs t' k \<noteq> None" using st unfolding stable_def by auto
  then have "apply_op x t' = Inr t'" using NewRef by auto
  moreover have "stable xs u t'" using st NewRef unfolding stable_def by simp
  ultimately show ?thesis by simp
next
  case (Raise e)
  then show ?thesis using x by simp
qed

lemma apply_ops_stable:
  "apply_ops xs t = Inr u \<Longrightarrow> stable xs u t' \<Longrightarrow> apply_ops xs t' = Inr u"
proof (induction xs arbitrary: t t')
  case Nil
  then have "concepts t' = concepts u" "mappings t' = mappings u" "concept_refs t' = concept_refs u"
    unfolding stable_def by auto
  then show ?case by simp
next
  case (Cons x xs)
  then obtain t1 where a: "apply_op x t = Inr t1" "apply_ops xs t1 = Inr u"
    by (auto split: sum.splits)
  from stable_step[OF a Cons.prems(2)] obtain t1' where b: "apply_op x t' = Inr t1'" "stable xs u t1'"
    by blast
  show ?case using Cons.IH[OF a(2) b(2)] b(1) by simp
qed

lemma apply_ops_idem: "apply_ops xs t = Inr u \<Longrightarrow> apply_ops xs u = Inr u"
  by (rule apply_ops_stable) (simp_all add: stable_def)

section \<open>The scenario of the specification\<close>

lemma scenario_run:
  "dhis2diff_mer example_reference_json example_repos scenario_export empty_snapshot =
   Inr (scenario_snapshot, \<lparr>num_indicators = 1, num_disaggregates = 1, num_mappings = 1,
     num_indicator_refs = 1, num_disaggregate_refs = 1\<rparr>)"
  by (simp add: dhis2diff_mer_def scenario_export_def make_de_def make_coc_def de_step_def
        coc_step_def dse_step_def disaggregate_ref_step_def example_repos_def
        example_reference_json_def scenario_snapshot_def empty_snapshot_def zero_counts_def
        concept_url_def Let_def)

section \<open>The imap data of a \<open>DatimImap\<close>\<close>

lemma append_rows_eq: "append_rows acc rows = acc @ rows"
  by (induction rows arbitrary: acc) simp_all

lemma fields_loop_None: "fields_loop t ln r fs = None \<longleftrightarrow> (\<forall>f\<in>set fs. r f \<noteq> None)"
  by (induction fs) auto

lemma fields_loop_first:
  "\<forall>f\<in>set pre. r f \<noteq> None \<Longrightarrow> r f = None \<Longrightarrow>
   fields_loop t ln r (pre @ f # post) = Some (if t then Inl (MissingField f ln) else Inr False)"
  by (induction pre) auto

lemma first_missing_field:
  assumes "\<not> has_all_fields r"
  obtains fpre f fpost where "IMAP_FIELD_NAMES = fpre @ f # fpost"
    and "\<forall>f'\<in>set fpre. r f' \<noteq> None" and "r f = None"
proof -
  from assms have "\<exists>f\<in>set IMAP_FIELD_NAMES. r f = None"
    by (simp add: has_all_fields_def)
  from split_list_first_prop[OF this] show ?thesis using that by auto
qed

lemma rows_loop_True:
  "rows_loop t ln rows = Inr True \<longleftrightarrow> (\<forall>r\<in>set rows. has_all_fields r)"
proof (induction rows arbitrary: ln)
  case Nil
  then show ?case by simp
next
  case (Cons r rs)
  show ?case
  proof (cases "has_all_fields r")
    case True
    then have "fields_loop t (ln + 1) r IMAP_FIELD_NAMES = None"
      by (simp only: fields_loop_None has_all_fields_def)
    then show ?thesis using Cons[of "ln + 1"] True by simp
  next
    case False
    then obtain fpre f fpost where "IMAP_FIELD_NAMES = fpre @ f # fpost"
      "\<forall>f'\<in>set fpre. r f' \<noteq> None" "r f = None"
      by (rule first_missing_field)
    then have "fields_loop t (ln + 1) r IMAP_FIELD_NAMES =
        Some (if t then Inl (MissingField f (ln + 1)) else Inr False)"
      using fields_loop_first[of fpre r f t "ln + 1" fpost] by simp
    then show ?thesis using False by simp
  qed
qed

lemma rows_loop_first:
  "\<forall>r\<in>set pre. has_all_fields r \<Longrightarrow> IMAP_FIELD_NAMES = fpre @ f # fpost \<Longrightarrow>
   \<forall>f'\<in>set fpre. r f' \<noteq> None \<Longrightarrow> r f = None \<Longrightarrow>
   rows_loop t ln (pre @ r # post) =
     (if t then Inl (MissingField f (ln + length pre + 1)) else Inr False)"
proof (induction pre arbitrary: ln)
  case Nil
  then show ?case using fields_loop_first[of fpre r f t "ln + 1" fpost] by simp
next
  case (Cons a pre)
  then have "fields_loop t (ln + 1) a IMAP_FIELD_NAMES = None"
    by (simp add: fields_loop_None has_all_fields_def)
  then show ?case using Cons.IH[of "ln + 1"] Cons.prems by simp
qed

lemma example_row_has_all_fields: "has_all_fields example_row"
  by (simp add: has_all_fields_def IMAP_FIELD_NAMES_def example_row_def)

lemma example_row_no_operation_field:
  "f \<in> set IMAP_FIELD_NAMES \<Longrightarrow> example_row_no_operation f = None \<longleftrightarrow> f = ''Operation''"
  by (auto simp: IMAP_FIELD_NAMES_def example_row_no_operation_def example_row_def)

section \<open>Properties of the loops\<close>

lemmas run_defs = dhis2diff_mer_def make_de_def make_coc_def de_step_def
        coc_step_def dse_step_def disaggregate_ref_step_def example_repos_def
        example_reference_json_def empty_snapshot_def zero_counts_def
        concept_url_def Let_def scenario_de_def

lemma concept_url_eq: "concept_url a = concept_url b \<longleftrightarrow> a = b"
  by (simp add: concept_url_def)

lemma de_step_missing_field:
  assumes "de_code de = None \<or> categoryCombo de = None \<or> dataSetElements de = None"
  shows "\<exists>field. de_step g repos de st = Inl (KeyError field)"
proof -
  have k: "\<And>r :: error + ('a, 'b) snapshot \<times> counts. (\<exists>e. r = Inl e) \<Longrightarrow> \<exists>field. r = Inl (KeyError field)"
    by (metis error.exhaust)
  have "\<exists>e. de_step g repos de st = Inl e"
    using assms
    by (cases st) (auto simp: de_step_def Let_def split: option.splits sum.splits)
  then show ?thesis by (rule k)
qed

lemma de_loop_missing_field:
  assumes "de \<in> set des"
    and "de_code de = None \<or> categoryCombo de = None \<or> dataSetElements de = None"
  shows "\<exists>field. de_loop g repos des st = Inl (KeyError field)"
  using assms(1)
proof (induction des arbitrary: st)
  case Nil
  then show ?case by simp
next
  case (Cons d des)
  show ?case
  proof (cases "de_step g repos d st")
    case (Inl e)
    then show ?thesis by (cases e) simp
  next
    case (Inr st')
    then have "d \<noteq> de" using de_step_missing_field[OF assms(2), of g repos st] by auto
    then have "de \<in> set des" using Cons.prems by simp
    then show ?thesis using Cons.IH[of st'] Inr by simp
  qed
qed

lemma coc_step_closed:
  assumes "coc_step iurl coc (s, n, u) = Inr (s', n', u')"
    and "mappings_closed s" and "concepts s iurl \<noteq> None"
  shows "mappings_closed s' \<and> concepts s' iurl \<noteq> None"
  using assms
  by (auto simp: coc_step_def Let_def mappings_closed_def disaggregate_mapping_def
        split: option.splits if_splits)

lemma coc_loop_closed:
  assumes "coc_loop iurl cocs (s, n, u) = Inr (s', n', u')"
    and "mappings_closed s" and "concepts s iurl \<noteq> None"
  shows "mappings_closed s'"
  using assms
proof (induction cocs arbitrary: s n u)
  case Nil
  then show ?case by simp
next
  case (Cons coc cocs)
  then obtain s1 n1 u1 where a: "coc_step iurl coc (s, n, u) = Inr (s1, n1, u1)"
    and b: "coc_loop iurl cocs (s1, n1, u1) = Inr (s', n', u')"
    by (auto split: sum.splits)
  from coc_step_closed[OF a Cons.prems(2,3)] show ?case using Cons.IH[OF b] by simp
qed

lemma disaggregate_ref_step_same:
  "concepts (fst (disaggregate_ref_step g col url st)) = concepts (fst st) \<and>
   mappings (fst (disaggregate_ref_step g col url st)) = mappings (fst st)"
  by (cases st) (simp add: disaggregate_ref_step_def split: prod.splits)

lemma disaggregate_ref_loop_same:
  "concepts (fst (disaggregate_ref_loop g col urls st)) = concepts (fst st) \<and>
   mappings (fst (disaggregate_ref_loop g col urls st)) = mappings (fst st)"
  by (induction urls arbitrary: st) (simp_all add: disaggregate_ref_step_same)

lemma dse_step_same:
  assumes "dse_step g repos iurl urls dse (s, n) = Inr (s', n')"
  shows "concepts s' = concepts s \<and> mappings s' = mappings s"
proof (cases "\<exists>ds i col. dataSet dse = Some ds \<and> ds_id ds = Some i \<and> repos i = Some col")
  case False
  then show ?thesis using assms by (auto simp: dse_step_def split: option.splits)
next
  case True
  then obtain ds i col where f: "dataSet dse = Some ds" "ds_id ds = Some i" "repos i = Some col"
    by blast
  obtain k r where g: "g ''PEPFAR'' col iurl = (k, r)" by (cases "g ''PEPFAR'' col iurl")
  have "(s', n') = disaggregate_ref_loop g col urls
      (s\<lparr>concept_refs := (concept_refs s)(k \<mapsto> r)\<rparr>, n\<lparr>num_indicator_refs := num_indicator_refs n + 1\<rparr>)"
    using assms f g by (simp add: dse_step_def)
  then show ?thesis
    using disaggregate_ref_loop_same[of g col urls
        "(s\<lparr>concept_refs := (concept_refs s)(k \<mapsto> r)\<rparr>, n\<lparr>num_indicator_refs := num_indicator_refs n + 1\<rparr>)"]
    by (metis fst_conv snapshot.select_convs(1,2) snapshot.surjective snapshot.update_convs(3))
qed

lemma dse_loop_same:
  assumes "dse_loop g repos iurl urls dses (s, n) = Inr (s', n')"
  shows "concepts s' = concepts s \<and> mappings s' = mappings s"
  using assms
proof (induction dses arbitrary: s n)
  case Nil
  then show ?case by simp
next
  case (Cons dse dses)
  then obtain s1 n1 where a: "dse_step g repos iurl urls dse (s, n) = Inr (s1, n1)"
    and b: "dse_loop g repos iurl urls dses (s1, n1) = Inr (s', n')"
    by (auto split: sum.splits)
  show ?case using dse_step_same[OF a] Cons.IH[OF b] by simp
qed

lemma mappings_closed_cong:
  "concepts s' = concepts s \<Longrightarrow> mappings s' = mappings s \<Longrightarrow> mappings_closed s \<Longrightarrow> mappings_closed s'"
  by (simp add: mappings_closed_def)

lemma de_step_closed:
  assumes "de_step g repos de (s, n) = Inr (s', n')" and "mappings_closed s"
  shows "mappings_closed s'"
proof -
  from assms(1) obtain c i nm sn cc cocs dses s2 n2 u2 where
    f: "de_code de = Some c" "de_id de = Some i" "de_name de = Some nm" "de_shortName de = Some sn"
       "categoryCombo de = Some cc" "categoryOptionCombos cc = Some cocs" "dataSetElements de = Some dses"
    and cl: "coc_loop (concept_url c) cocs
        (s\<lparr>concepts := (concepts s)(concept_url c \<mapsto> indicator_concept c i nm sn (de_description de))\<rparr>,
         n\<lparr>num_indicators := num_indicators n + 1\<rparr>, []) = Inr (s2, n2, u2)"
    and dl: "dse_loop g repos (concept_url c) u2 dses (s2, n2) = Inr (s', n')"
    by (auto simp: de_step_def Let_def split: option.splits sum.splits)
  have "mappings_closed (s\<lparr>concepts := (concepts s)(concept_url c \<mapsto> indicator_concept c i nm sn (de_description de))\<rparr>)"
    using assms(2) by (auto simp: mappings_closed_def)
  then have "mappings_closed s2" using coc_loop_closed[OF cl] by simp
  then show ?thesis using dse_loop_same[OF dl] mappings_closed_cong by blast
qed

lemma de_loop_closed:
  assumes "de_loop g repos des (s, n) = Inr (s', n')" and "mappings_closed s"
  shows "mappings_closed s'"
  using assms
proof (induction des arbitrary: s n)
  case Nil
  then show ?case by simp
next
  case (Cons de des)
  then obtain s1 n1 where a: "de_step g repos de (s, n) = Inr (s1, n1)"
    and b: "de_loop g repos des (s1, n1) = Inr (s', n')"
    by (auto split: sum.splits)
  show ?case using Cons.IH[OF b de_step_closed[OF a Cons.prems(2)]] .
qed

lemma dse_step_unknown:
  "unknown_dataset repos dse \<Longrightarrow> dse_step g repos iurl urls dse st = Inr st"
  by (cases st) (auto simp: unknown_dataset_def dse_step_def split: option.splits)

lemma dse_loop_filter:
  "dse_loop g repos iurl urls (filter (\<lambda>dse. \<not> unknown_dataset repos dse) dses) st =
   dse_loop g repos iurl urls dses st"
  by (induction dses arbitrary: st) (auto simp: dse_step_unknown split: sum.splits)

lemma de_step_filter:
  "de_step g repos
     (de\<lparr>dataSetElements :=
        map_option (filter (\<lambda>dse. \<not> unknown_dataset repos dse)) (dataSetElements de)\<rparr>) st =
   de_step g repos de st"
  by (cases st)
    (auto simp: de_step_def Let_def dse_loop_filter split: option.splits sum.splits)

lemma de_loop_filter:
  "de_loop g repos
     (map (\<lambda>de. de\<lparr>dataSetElements :=
        map_option (filter (\<lambda>dse. \<not> unknown_dataset repos dse)) (dataSetElements de)\<rparr>) des) st =
   de_loop g repos des st"
  by (induction des arbitrary: st) (auto simp: de_step_filter split: sum.splits)

lemma disaggregate_ref_step_present:
  "concept_refs s (fst (g ''PEPFAR'' col url)) \<noteq> None \<Longrightarrow>
   disaggregate_ref_step g col url (s, n) = (s, n)"
  by (auto simp: disaggregate_ref_step_def case_prod_beta)

section \<open>The first disaggregate and the mappings of a run\<close>

lemma mapping_key_same_disaggregate:
  "disaggregate_mapping_key (concept_url i1) u = disaggregate_mapping_key (concept_url i2) u
     \<longleftrightarrow> i1 = i2"
  by (simp add: disaggregate_mapping_key_def concept_url_def)

lemma first_separator:
  assumes "xs @ x # ys = xs' @ x # ys'" and "x \<notin> set xs" and "x \<notin> set xs'"
  shows "xs = xs' \<and> ys = ys'"
  using assms
proof (induction xs arbitrary: xs')
  case Nil
  then show ?case by (cases xs') auto
next
  case (Cons a as)
  then show ?case by (cases xs') auto
qed

lemma mapping_key_no_amp:
  assumes "CHR ''&'' \<notin> set i" and "CHR ''&'' \<notin> set i'"
    and "disaggregate_mapping_key (concept_url i) (concept_url d) =
         disaggregate_mapping_key (concept_url i') (concept_url d')"
  shows "i = i' \<and> d = d'"
proof -
  let ?rest = "\<lambda>d. ''maptype=Has Option&to=/orgs/PEPFAR/sources/MER/concepts/'' @ d @ ''/''"
  have "(i @ ''/'') @ CHR ''&'' # ?rest d = (i' @ ''/'') @ CHR ''&'' # ?rest d'"
    using assms(3) by (simp add: disaggregate_mapping_key_def concept_url_def)
  moreover have "CHR ''&'' \<notin> set (i @ ''/'')" and "CHR ''&'' \<notin> set (i' @ ''/'')"
    using assms(1,2) by simp_all
  ultimately have "i @ ''/'' = i' @ ''/'' \<and> ?rest d = ?rest d'"
    by (rule first_separator)
  then show ?thesis by simp
qed

lemma apply_ops_no_Raise: "apply_ops xs s = Inr s' \<Longrightarrow> Raise e \<notin> set xs"
proof (induction xs arbitrary: s)
  case Nil
  then show ?case by simp
next
  case (Cons x xs)
  then obtain s1 where a: "apply_op x s = Inr s1" "apply_ops xs s1 = Inr s'"
    by (auto split: sum.splits)
  have "x \<noteq> Raise e" using a(1) by auto
  then show ?case using Cons.IH[OF a(2)] by simp
qed

lemma apply_ops_first_new:
  "apply_ops xs s = Inr s' \<Longrightarrow> concepts s k = None \<Longrightarrow> k \<notin> (\<Union>x\<in>set xs. cput x) \<Longrightarrow>
   first_new k xs = Some v \<Longrightarrow> \<exists>c. v = Inr c \<and> concepts s' k = Some c"
proof (induction xs arbitrary: s)
  case Nil
  then show ?case by simp
next
  case (Cons x xs)
  then obtain s1 where a: "apply_op x s = Inr s1" "apply_ops xs s1 = Inr s'"
    by (auto split: sum.splits)
  have nk: "k \<notin> (\<Union>x\<in>set xs. cput x)" using Cons.prems(3) by simp
  show ?case
  proof (cases "\<exists>w. x = NewConcept k w")
    case True
    then have x: "x = NewConcept k v" using Cons.prems(4) by auto
    then obtain c where c: "v = Inr c" "concepts s1 k = Some c"
      using a(1) Cons.prems(2) by (auto split: sum.splits)
    then show ?thesis using apply_ops_keep_concept[OF a(2) nk c(2)] by simp
  next
    case False
    then have f: "first_new k xs = Some v" using Cons.prems(4) by (cases x) auto
    have "concepts s1 k = None"
      using a(1) Cons.prems(2,3) False by (cases x) (auto split: if_splits sum.splits)
    then show ?thesis using Cons.IH[OF a(2) _ nk f] by simp
  qed
qed

lemma first_new_append:
  "first_new k (xs @ ys) = (case first_new k xs of None \<Rightarrow> first_new k ys | Some v \<Rightarrow> Some v)"
  by (induction k xs rule: first_new.induct) auto

lemma find_append_first:
  "find P (xs @ ys) = (case find P xs of None \<Rightarrow> find P ys | Some x \<Rightarrow> Some x)"
  by (induction xs) auto

lemma apply_ops_last_mapping:
  "apply_ops xs s = Inr s' \<Longrightarrow> PutMapping k v \<in> set xs \<Longrightarrow>
   \<exists>v'. PutMapping k v' \<in> set xs \<and> mappings s' k = Some v'"
proof (induction xs arbitrary: s v)
  case Nil
  then show ?case by simp
next
  case (Cons x xs)
  then obtain s1 where a: "apply_op x s = Inr s1" "apply_ops xs s1 = Inr s'"
    by (auto split: sum.splits)
  show ?case
  proof (cases "\<exists>w. PutMapping k w \<in> set xs")
    case True
    then obtain w where "PutMapping k w \<in> set xs" by blast
    from Cons.IH[OF a(2) this] show ?thesis by auto
  next
    case False
    then have x: "x = PutMapping k v" using Cons.prems(2) by auto
    have nk: "k \<notin> (\<Union>x\<in>set xs. mput x)"
    proof
      assume "k \<in> (\<Union>x\<in>set xs. mput x)"
      then obtain y where y: "y \<in> set xs" "k \<in> mput y" by blast
      obtain w where "y = PutMapping k w" using y(2) by (cases y) auto
      then show False using False y by blast
    qed
    have "mappings s1 k = Some v" using a(1) x by auto
    from apply_ops_keep_mapping[OF a(2) nk this] show ?thesis using x by auto
  qed
qed

lemma coc_ops_disaggregate_of:
  "coc_ops iurl coc =
     (case coc_code coc of
        None \<Rightarrow> [Raise (KeyError ''code'')]
      | Some d \<Rightarrow>
          [NewConcept (concept_url d) (disaggregate_of d coc),
           PutMapping (disaggregate_mapping_key iurl (concept_url d))
             (disaggregate_mapping iurl (concept_url d))])"
  by (simp add: coc_ops_def disaggregate_of_def split: option.splits)

lemma first_new_coc_ops:
  "first_new (concept_url c) (concat (map (coc_ops iurl) cocs)) =
   map_option (disaggregate_of c) (find (\<lambda>coc. coc_code coc = Some c) cocs)"
  by (induction cocs)
    (auto simp: coc_ops_disaggregate_of concept_url_eq split: option.splits)

lemma first_new_none:
  "(\<forall>x\<in>set xs. \<forall>w. x \<noteq> NewConcept k w) \<Longrightarrow> first_new k xs = None"
  by (induction k xs rule: first_new.induct) auto

lemma dse_ops_kinds:
  "x \<in> set (dse_ops g repos iurl urls dse) \<Longrightarrow>
   (\<exists>k r. x = PutRef k r) \<or> (\<exists>k r. x = NewRef k r) \<or> (\<exists>e. x = Raise e)"
  by (auto simp: dse_ops_def split: option.splits)

lemma first_new_dse_ops:
  "first_new k (concat (map (dse_ops g repos iurl urls) dses)) = None"
  by (rule first_new_none) (auto dest: dse_ops_kinds)

lemma de_ops_no_Raise:
  assumes "\<forall>e. Raise e \<notin> set (de_ops g repos de)"
  obtains c i nm sn cc cocs dses where
    "de_code de = Some c" "de_id de = Some i" "de_name de = Some nm" "de_shortName de = Some sn"
    "categoryCombo de = Some cc" "categoryOptionCombos cc = Some cocs"
    "dataSetElements de = Some dses"
    "de_ops g repos de =
       PutConcept (concept_url c) (indicator_concept c i nm sn (de_description de)) #
       concat (map (coc_ops (concept_url c)) cocs) @
       concat (map (dse_ops g repos (concept_url c) (coc_urls cocs)) dses)"
proof -
  have "\<exists>c i nm sn cc cocs dses. de_code de = Some c \<and> de_id de = Some i \<and> de_name de = Some nm \<and>
      de_shortName de = Some sn \<and> categoryCombo de = Some cc \<and> categoryOptionCombos cc = Some cocs \<and>
      dataSetElements de = Some dses"
    using assms by (auto simp: de_ops_def split: option.splits)
  then obtain c i nm sn cc cocs dses where f: "de_code de = Some c" "de_id de = Some i"
    "de_name de = Some nm" "de_shortName de = Some sn" "categoryCombo de = Some cc"
    "categoryOptionCombos cc = Some cocs" "dataSetElements de = Some dses"
    by blast
  then have "de_ops g repos de =
       PutConcept (concept_url c) (indicator_concept c i nm sn (de_description de)) #
       concat (map (coc_ops (concept_url c)) cocs) @
       concat (map (dse_ops g repos (concept_url c) (coc_urls cocs)) dses)"
    by (simp add: de_ops_def)
  with f show ?thesis by (rule that)
qed

lemma first_new_de_ops:
  assumes "\<forall>e. Raise e \<notin> set (de_ops g repos de)"
  shows "first_new (concept_url c) (de_ops g repos de) =
    map_option (disaggregate_of c) (find (\<lambda>coc. coc_code coc = Some c) (de_cocs de))"
proof -
  from assms obtain d i nm sn cc cocs dses where
    f: "categoryCombo de = Some cc" "categoryOptionCombos cc = Some cocs"
    and o: "de_ops g repos de =
       PutConcept (concept_url d) (indicator_concept d i nm sn (de_description de)) #
       concat (map (coc_ops (concept_url d)) cocs) @
       concat (map (dse_ops g repos (concept_url d) (coc_urls cocs)) dses)"
    by (rule de_ops_no_Raise)
  have "de_cocs de = cocs" using f by (simp add: de_cocs_def)
  then show ?thesis
    by (simp add: o first_new_append first_new_coc_ops first_new_dse_ops split: option.splits)
qed

lemma first_new_export_ops:
  assumes "\<forall>e. Raise e \<notin> set (export_ops g repos des)"
  shows "first_new (concept_url c) (export_ops g repos des) =
    map_option (disaggregate_of c) (find (\<lambda>coc. coc_code coc = Some c) (all_cocs des))"
  using assms
proof (induction des)
  case Nil
  then show ?case by (simp add: export_ops_def all_cocs_def)
next
  case (Cons de des)
  have a: "\<forall>e. Raise e \<notin> set (de_ops g repos de)"
    and b: "\<forall>e. Raise e \<notin> set (export_ops g repos des)"
    using Cons.prems by (auto simp: export_ops_def)
  have "export_ops g repos (de # des) = de_ops g repos de @ export_ops g repos des"
    by (simp add: export_ops_def)
  moreover have "all_cocs (de # des) = de_cocs de @ all_cocs des"
    by (simp add: all_cocs_def)
  ultimately show ?case
    using first_new_de_ops[OF a, of c] Cons.IH[OF b]
    by (simp add: first_new_append find_append_first split: option.splits)
qed

lemma cput_coc_ops: "x \<in> set (coc_ops iurl coc) \<Longrightarrow> cput x = {}"
  by (auto simp: coc_ops_def split: option.splits)

lemma cput_dse_ops: "x \<in> set (dse_ops g repos iurl urls dse) \<Longrightarrow> cput x = {}"
  by (auto dest: dse_ops_kinds)

lemma cput_de_ops:
  assumes "x \<in> set (de_ops g repos de)" and "k \<in> cput x"
  shows "\<exists>i. de_code de = Some i \<and> k = concept_url i"
  using assms
  by (auto simp: de_ops_def split: option.splits dest: cput_coc_ops cput_dse_ops)

lemma cput_export_ops:
  assumes "k \<in> (\<Union>x\<in>set (export_ops g repos des). cput x)"
  shows "\<exists>de\<in>set des. \<exists>i. de_code de = Some i \<and> k = concept_url i"
proof -
  from assms obtain de x where "de \<in> set des" "x \<in> set (de_ops g repos de)" "k \<in> cput x"
    by (auto simp: export_ops_def)
  then show ?thesis using cput_de_ops by blast
qed

lemma PutMapping_coc_ops:
  "PutMapping k v \<in> set (coc_ops iurl coc) \<longleftrightarrow>
   (\<exists>d. coc_code coc = Some d \<and> k = disaggregate_mapping_key iurl (concept_url d) \<and>
        v = disaggregate_mapping iurl (concept_url d))"
  by (auto simp: coc_ops_def split: option.splits)

lemma PutMapping_de_ops:
  assumes "PutMapping k v \<in> set (de_ops g repos de)"
  shows "\<exists>coc\<in>set (de_cocs de). \<exists>i d. de_code de = Some i \<and> coc_code coc = Some d \<and>
      k = disaggregate_mapping_key (concept_url i) (concept_url d) \<and>
      v = disaggregate_mapping (concept_url i) (concept_url d)"
  using assms
  by (auto simp: de_ops_def de_cocs_def PutMapping_coc_ops split: option.splits dest: dse_ops_kinds)

lemma PutMapping_export_ops:
  assumes "PutMapping k v \<in> set (export_ops g repos des)"
  shows "\<exists>de\<in>set des. \<exists>coc\<in>set (de_cocs de). \<exists>i d. de_code de = Some i \<and> coc_code coc = Some d \<and>
      k = disaggregate_mapping_key (concept_url i) (concept_url d) \<and>
      v = disaggregate_mapping (concept_url i) (concept_url d)"
proof -
  from assms obtain de where "de \<in> set des" "PutMapping k v \<in> set (de_ops g repos de)"
    by (auto simp: export_ops_def)
  then show ?thesis using PutMapping_de_ops by blast
qed

lemma export_ops_PutMapping:
  assumes "\<forall>e. Raise e \<notin> set (export_ops g repos des)"
    and "de \<in> set des" and "de_code de = Some i"
    and "coc \<in> set (de_cocs de)" and "coc_code coc = Some d"
  shows "PutMapping (disaggregate_mapping_key (concept_url i) (concept_url d))
      (disaggregate_mapping (concept_url i) (concept_url d)) \<in> set (export_ops g repos des)"
proof -
  have "\<forall>e. Raise e \<notin> set (de_ops g repos de)"
    using assms(1,2) by (auto simp: export_ops_def)
  then obtain c j nm sn cc cocs dses where
    f: "de_code de = Some c" "categoryCombo de = Some cc" "categoryOptionCombos cc = Some cocs"
    and o: "de_ops g repos de =
       PutConcept (concept_url c) (indicator_concept c j nm sn (de_description de)) #
       concat (map (coc_ops (concept_url c)) cocs) @
       concat (map (dse_ops g repos (concept_url c) (coc_urls cocs)) dses)"
    by (rule de_ops_no_Raise)
  have "coc \<in> set cocs" using assms(4) f by (simp add: de_cocs_def)
  moreover have "c = i" using assms(3) f by simp
  ultimately have "PutMapping (disaggregate_mapping_key (concept_url i) (concept_url d))
      (disaggregate_mapping (concept_url i) (concept_url d)) \<in> set (de_ops g repos de)"
    using assms(5) by (auto simp: o PutMapping_coc_ops)
  then show ?thesis using assms(2) by (auto simp: export_ops_def)
qed

lemma shared_run:
  "dhis2diff_mer example_reference_json example_repos shared_export empty_snapshot =
   Inr (shared_snapshot, \<lparr>num_indicators = 2, num_disaggregates = 1, num_mappings = 2,
     num_indicator_refs = 0, num_disaggregate_refs = 0\<rparr>)"
  by (simp add: run_defs shared_export_def shared_snapshot_def disaggregate_mapping_key_def)

lemma run_as_ops:
  assumes "dhis2diff_mer g repos export s0 = Inr (s, n)" and "dataElements export = Some des"
  shows "apply_ops (export_ops g repos des) s0 = Inr s"
  using assms de_loop_ops[of g repos des s0 zero_counts]
  by (simp add: dhis2diff_mer_def drop_counts_def)

lemma first_disaggregate_wins:
  assumes run: "dhis2diff_mer g repos export s0 = Inr (s, n)"
    and des: "dataElements export = Some des"
    and fresh: "concepts s0 (concept_url c) = None"
    and no_indicator: "\<forall>de\<in>set des. de_code de \<noteq> Some c"
    and occurs: "\<exists>coc\<in>set (all_cocs des). coc_code coc = Some c"
  shows "\<exists>coc ext_id full_name.
      find (\<lambda>coc. coc_code coc = Some c) (all_cocs des) = Some coc \<and>
      coc_id coc = Some ext_id \<and> coc_name coc = Some full_name \<and>
      concepts s (concept_url c) = Some (disaggregate_concept c ext_id full_name)"
proof -
  note ops = run_as_ops[OF run des]
  have nr: "\<forall>e. Raise e \<notin> set (export_ops g repos des)"
    using apply_ops_no_Raise[OF ops] by blast
  from occurs obtain coc where coc: "find (\<lambda>coc. coc_code coc = Some c) (all_cocs des) = Some coc"
    by (cases "find (\<lambda>coc. coc_code coc = Some c) (all_cocs des)") (auto simp: find_None_iff)
  then have fn: "first_new (concept_url c) (export_ops g repos des) = Some (disaggregate_of c coc)"
    using first_new_export_ops[OF nr, of c] by simp
  have np: "concept_url c \<notin> (\<Union>x\<in>set (export_ops g repos des). cput x)"
  proof
    assume "concept_url c \<in> (\<Union>x\<in>set (export_ops g repos des). cput x)"
    from cput_export_ops[OF this] show False using no_indicator by (auto simp: concept_url_eq)
  qed
  from apply_ops_first_new[OF ops fresh np fn] obtain v where
    v: "disaggregate_of c coc = Inr v" "concepts s (concept_url c) = Some v"
    by blast
  from v(1) obtain ext_id full_name where "coc_id coc = Some ext_id" "coc_name coc = Some full_name"
    "v = disaggregate_concept c ext_id full_name"
    by (auto simp: disaggregate_of_def split: option.splits)
  then show ?thesis using coc v(2) by blast
qed

lemma mapping_of_pair:
  assumes run: "dhis2diff_mer g repos export s0 = Inr (s, n)"
    and des: "dataElements export = Some des"
    and de: "de \<in> set des" "de_code de = Some i"
    and coc: "coc \<in> set (de_cocs de)" "coc_code coc = Some d"
  shows "\<exists>m. mappings s (disaggregate_mapping_key (concept_url i) (concept_url d)) = Some m \<and>
      map_type m = ''Has Option'' \<and>
      ((\<forall>de\<in>set des. \<forall>j. de_code de = Some j \<longrightarrow> CHR ''&'' \<notin> set j) \<longrightarrow>
         m = disaggregate_mapping (concept_url i) (concept_url d))"
proof -
  let ?k = "disaggregate_mapping_key (concept_url i) (concept_url d)"
  note ops = run_as_ops[OF run des]
  have nr: "\<forall>e. Raise e \<notin> set (export_ops g repos des)"
    using apply_ops_no_Raise[OF ops] by blast
  from apply_ops_last_mapping[OF ops export_ops_PutMapping[OF nr de coc]]
  obtain m where m: "PutMapping ?k m \<in> set (export_ops g repos des)" "mappings s ?k = Some m"
    by blast
  from PutMapping_export_ops[OF m(1)] obtain de' i' d' where
    p: "de' \<in> set des" "de_code de' = Some i'"
      "?k = disaggregate_mapping_key (concept_url i') (concept_url d')"
      "m = disaggregate_mapping (concept_url i') (concept_url d')"
    by blast
  have "map_type m = ''Has Option''" using p(4) by (simp add: disaggregate_mapping_def)
  moreover have "m = disaggregate_mapping (concept_url i) (concept_url d)"
    if "\<forall>de\<in>set des. \<forall>j. de_code de = Some j \<longrightarrow> CHR ''&'' \<notin> set j"
  proof -
    have "CHR ''&'' \<notin> set i" "CHR ''&'' \<notin> set i'" using that de p(1,2) by auto
    from mapping_key_no_amp[OF this p(3)] show ?thesis using p(4) by simp
  qed
  ultimately show ?thesis using m(2) by blast
qed

section \<open>The claims\<close>

text \<open>
  C1, as stated, fails when the shared code is also the code of a data element: the
  indicator concept is stored under the same key without a guard, so it replaces the
  disaggregate concept built before it. Here the two data elements share the
  category-option-combo code \<open>TX_CURR\<close>, which is the code of the second of them;
  the run leaves an Indicator concept under that key.
\<close>

theorem indicator_overwrites_shared_disaggregate:
  "dhis2diff_mer example_reference_json example_repos code_clash_export empty_snapshot =
   Inr (code_clash_snapshot, \<lparr>num_indicators = 2, num_disaggregates = 1, num_mappings = 2,
     num_indicator_refs = 0, num_disaggregate_refs = 0\<rparr>)"
  by (simp add: run_defs code_clash_export_def code_clash_snapshot_def disaggregate_mapping_key_def)

text \<open>
  C1, amended. Let two data elements of the export, of different codes, each have a
  category-option-combo of code \<open>c\<close>, let \<open>c\<close> be the code of no data element
  of the export, and let the run start from a snapshot without the key of \<open>c\<close>.
  When the run returns, the concept partition holds under the key of \<open>c\<close> the
  Disaggregate record built from the first category-option-combo of code \<open>c\<close> in the
  order of the export. The two indicators have different mapping keys to the disaggregate,
  and the mapping partition holds a \<open>Has Option\<close> record under each; when no data
  element code contains the character \<open>&\<close>, so that no other pair has the same
  mapping key, it is the record from that indicator to the disaggregate.
\<close>

theorem shared_disaggregate:
  assumes run: "dhis2diff_mer g repos export s0 = Inr (s, n)"
    and des: "dataElements export = Some des"
    and fresh: "concepts s0 (concept_url c) = None"
    and no_indicator: "\<forall>de\<in>set des. de_code de \<noteq> Some c"
    and de1: "de1 \<in> set des" "de_code de1 = Some i1"
    and coc1: "coc1 \<in> set (de_cocs de1)" "coc_code coc1 = Some c"
    and de2: "de2 \<in> set des" "de_code de2 = Some i2"
    and coc2: "coc2 \<in> set (de_cocs de2)" "coc_code coc2 = Some c"
    and distinct: "i1 \<noteq> i2"
  shows "(\<exists>coc ext_id full_name.
      find (\<lambda>coc. coc_code coc = Some c) (all_cocs des) = Some coc \<and>
      coc_id coc = Some ext_id \<and> coc_name coc = Some full_name \<and>
      concepts s (concept_url c) = Some (disaggregate_concept c ext_id full_name)) \<and>
    disaggregate_mapping_key (concept_url i1) (concept_url c) \<noteq>
      disaggregate_mapping_key (concept_url i2) (concept_url c) \<and>
    (\<exists>m1 m2.
      mappings s (disaggregate_mapping_key (concept_url i1) (concept_url c)) = Some m1 \<and>
      mappings s (disaggregate_mapping_key (concept_url i2) (concept_url c)) = Some m2 \<and>
      map_type m1 = ''Has Option'' \<and> map_type m2 = ''Has Option'' \<and>
      ((\<forall>de\<in>set des. \<forall>j. de_code de = Some j \<longrightarrow> CHR ''&'' \<notin> set j) \<longrightarrow>
         m1 = disaggregate_mapping (concept_url i1) (concept_url c) \<and>
         m2 = disaggregate_mapping (concept_url i2) (concept_url c)))"
proof (intro conjI)
  have "coc1 \<in> set (all_cocs des)" using de1(1) coc1(1) by (auto simp: all_cocs_def)
  then have "\<exists>coc\<in>set (all_cocs des). coc_code coc = Some c" using coc1(2) by blast
  from first_disaggregate_wins[OF run des fresh no_indicator this]
  show "\<exists>coc ext_id full_name.
      find (\<lambda>coc. coc_code coc = Some c) (all_cocs des) = Some coc \<and>
      coc_id coc = Some ext_id \<and> coc_name coc = Some full_name \<and>
      concepts s (concept_url c) = Some (disaggregate_concept c ext_id full_name)" .
next
  show "disaggregate_mapping_key (concept_url i1) (concept_url c) \<noteq>
      disaggregate_mapping_key (concept_url i2) (concept_url c)"
    using distinct by (simp add: mapping_key_same_disaggregate)
next
  from mapping_of_pair[OF run des de1 coc1] mapping_of_pair[OF run des de2 coc2]
  show "\<exists>m1 m2.
      mappings s (disaggregate_mapping_key (concept_url i1) (concept_url c)) = Some m1 \<and>
      mappings s (disaggregate_mapping_key (concept_url i2) (concept_url c)) = Some m2 \<and>
      map_type m1 = ''Has Option'' \<and> map_type m2 = ''Has Option'' \<and>
      ((\<forall>de\<in>set des. \<forall>j. de_code de = Some j \<longrightarrow> CHR ''&'' \<notin> set j) \<longrightarrow>
         m1 = disaggregate_mapping (concept_url i1) (concept_url c) \<and>
         m2 = disaggregate_mapping (concept_url i2) (concept_url c))"
    by blast
qed

theorem shared_disaggregate_witness:
  "concepts shared_snapshot (concept_url ''Age_15+'') =
     Some (disaggregate_concept ''Age_15+'' ''coc1'' ''15+'') \<and>
   disaggregate_mapping_key (concept_url ''TX_NEW'') (concept_url ''Age_15+'') \<noteq>
     disaggregate_mapping_key (concept_url ''TX_CURR'') (concept_url ''Age_15+'') \<and>
   mappings shared_snapshot (disaggregate_mapping_key (concept_url ''TX_NEW'') (concept_url ''Age_15+'')) =
     Some (disaggregate_mapping (concept_url ''TX_NEW'') (concept_url ''Age_15+'')) \<and>
   mappings shared_snapshot (disaggregate_mapping_key (concept_url ''TX_CURR'') (concept_url ''Age_15+'')) =
     Some (disaggregate_mapping (concept_url ''TX_CURR'') (concept_url ''Age_15+''))"
proof -
  let ?coc1 = "make_coc ''coc1'' ''Age_15+'' ''15+''"
  let ?coc2 = "make_coc ''coc2'' ''Age_15+'' ''15 and over''"
  let ?de1 = "make_de ''de1'' ''TX_NEW'' ''New on ART'' ''TX_NEW'' [?coc1] []"
  let ?de2 = "make_de ''de2'' ''TX_CURR'' ''Current on ART'' ''TX_CURR'' [?coc2] []"
  have des: "dataElements shared_export = Some [?de1, ?de2]"
    by (simp add: shared_export_def)
  have fresh: "concepts (empty_snapshot :: (string, reference) snapshot) (concept_url ''Age_15+'') = None"
    by (simp add: empty_snapshot_def)
  have ni: "\<forall>de\<in>set [?de1, ?de2]. de_code de \<noteq> Some ''Age_15+''"
    by (simp add: make_de_def)
  have d1: "?de1 \<in> set [?de1, ?de2]" "de_code ?de1 = Some ''TX_NEW''"
    by (simp_all add: make_de_def)
  have c1: "?coc1 \<in> set (de_cocs ?de1)" "coc_code ?coc1 = Some ''Age_15+''"
    by (simp_all add: de_cocs_def make_de_def make_coc_def)
  have d2: "?de2 \<in> set [?de1, ?de2]" "de_code ?de2 = Some ''TX_CURR''"
    by (simp_all add: make_de_def)
  have c2: "?coc2 \<in> set (de_cocs ?de2)" "coc_code ?coc2 = Some ''Age_15+''"
    by (simp_all add: de_cocs_def make_de_def make_coc_def)
  have ne: "''TX_NEW'' \<noteq> ''TX_CURR''" by simp
  have amp: "\<forall>de\<in>set [?de1, ?de2]. \<forall>j. de_code de = Some j \<longrightarrow> CHR ''&'' \<notin> set j"
    by (auto simp: make_de_def)
  have f: "find (\<lambda>coc. coc_code coc = Some ''Age_15+'') (all_cocs [?de1, ?de2]) = Some ?coc1"
    by (simp add: all_cocs_def de_cocs_def make_de_def make_coc_def)
  note t = shared_disaggregate [OF shared_run des fresh ni d1 c1 d2 c2 ne]
  show ?thesis using t f amp by (auto simp: make_coc_def)
qed

text \<open>
  C2. When a data element of the export lacks \<open>code\<close>, \<open>categoryCombo\<close> or
  \<open>dataSetElements\<close>, \<open>dhis2diff_mer\<close> does not return: it raises. The exception
  is Python's \<open>KeyError\<close> for a missing key (the one the specification calls
  \<open>MalformedExportError\<close>).
\<close>

theorem dhis2diff_mer_missing_field:
  assumes "dataElements export = Some des" and "de \<in> set des"
    and "de_code de = None \<or> categoryCombo de = None \<or> dataSetElements de = None"
  shows "\<exists>field. dhis2diff_mer g repos export s = Inl (KeyError field)"
  using assms(1) de_loop_missing_field[OF assms(2,3)] by (simp add: dhis2diff_mer_def)

theorem dhis2diff_mer_missing_field_witness:
  "(\<exists>field. dhis2diff_mer example_reference_json example_repos
      \<lparr>dataElements = Some [scenario_de ''Age_15+'' [''dsA''],
         (scenario_de ''Age_15+'' [''dsA''])\<lparr>de_code := None\<rparr>]\<rparr> (empty_snapshot :: (string, reference) snapshot) =
      Inl (KeyError field)) \<and>
   dhis2diff_mer example_reference_json example_repos
      \<lparr>dataElements = Some [(scenario_de ''Age_15+'' [''dsA''])\<lparr>de_code := None\<rparr>]\<rparr>
      (empty_snapshot :: (string, reference) snapshot) = Inl (KeyError ''code'') \<and>
   dhis2diff_mer example_reference_json example_repos
      \<lparr>dataElements = Some [(scenario_de ''Age_15+'' [''dsA''])\<lparr>categoryCombo := None\<rparr>]\<rparr>
      (empty_snapshot :: (string, reference) snapshot) = Inl (KeyError ''categoryCombo'') \<and>
   dhis2diff_mer example_reference_json example_repos
      \<lparr>dataElements = Some [(scenario_de ''Age_15+'' [''dsA''])\<lparr>dataSetElements := None\<rparr>]\<rparr>
      (empty_snapshot :: (string, reference) snapshot) = Inl (KeyError ''dataSetElements'')"
proof -
  let ?de = "(scenario_de ''Age_15+'' [''dsA''])\<lparr>de_code := None\<rparr>"
  let ?ex = "\<lparr>dataElements = Some [scenario_de ''Age_15+'' [''dsA''], ?de]\<rparr>"
  have "dataElements ?ex = Some [scenario_de ''Age_15+'' [''dsA''], ?de]" by simp
  moreover have "?de \<in> set [scenario_de ''Age_15+'' [''dsA''], ?de]" by simp
  moreover have "de_code ?de = None \<or> categoryCombo ?de = None \<or> dataSetElements ?de = None" by simp
  ultimately have "\<exists>field. dhis2diff_mer example_reference_json example_repos ?ex
      (empty_snapshot :: (string, reference) snapshot) = Inl (KeyError field)"
    by (rule dhis2diff_mer_missing_field)
  then show ?thesis by (simp add: run_defs)
qed

text \<open>
  C3. In the snapshot a run returns, every mapping record of the mapping partition has its
  \<open>from_concept_url\<close> and its \<open>to_concept_url\<close> among the keys of the concept
  partition, provided this held of the snapshot the run started from (as it does of a fresh
  one).
\<close>

theorem dhis2diff_mer_mappings_closed:
  assumes "dhis2diff_mer g repos export s = Inr (s', n)"
    and "mappings_closed s"
    and "mappings s' k = Some m"
  shows "concepts s' (from_concept_url m) \<noteq> None \<and> concepts s' (to_concept_url m) \<noteq> None"
proof -
  from assms(1) obtain des where "de_loop g repos des (s, zero_counts) = Inr (s', n)"
    by (auto simp: dhis2diff_mer_def split: option.splits)
  from de_loop_closed[OF this assms(2)] assms(3) show ?thesis
    by (simp add: mappings_closed_def)
qed

theorem dhis2diff_mer_mappings_closed_witness:
  "concepts scenario_snapshot (from_concept_url
      (disaggregate_mapping (concept_url ''TX_NEW'') (concept_url ''Age_15+''))) \<noteq> None \<and>
   concepts scenario_snapshot (to_concept_url
      (disaggregate_mapping (concept_url ''TX_NEW'') (concept_url ''Age_15+''))) \<noteq> None"
proof -
  have c: "mappings_closed (empty_snapshot :: (string, reference) snapshot)"
    by (simp add: mappings_closed_def empty_snapshot_def)
  have m: "mappings scenario_snapshot
      (disaggregate_mapping_key (concept_url ''TX_NEW'') (concept_url ''Age_15+'')) =
      Some (disaggregate_mapping (concept_url ''TX_NEW'') (concept_url ''Age_15+''))"
    by (simp add: scenario_snapshot_def)
  show ?thesis by (rule dhis2diff_mer_mappings_closed [OF scenario_run c m])
qed

text \<open>
  C4. Transform idempotence: when \<open>dhis2diff_mer\<close> has run on an export and returned
  the snapshot \<open>s1\<close>, running it again on the same export, with the same table of
  dataset repositories, from \<open>s1\<close> succeeds and returns \<open>s1\<close>: the second run
  changes nothing in any partition. (Only the counters it logs may differ.)
\<close>

theorem dhis2diff_mer_idempotent:
  assumes "dhis2diff_mer g repos export s = Inr (s1, n1)"
  shows "\<exists>n2. dhis2diff_mer g repos export s1 = Inr (s1, n2)"
proof -
  from assms obtain des where des: "dataElements export = Some des"
    and run: "de_loop g repos des (s, zero_counts) = Inr (s1, n1)"
    by (auto simp: dhis2diff_mer_def split: option.splits)
  have "apply_ops (export_ops g repos des) s = Inr s1"
    using de_loop_ops[of g repos des s zero_counts] run by (simp add: drop_counts_def)
  then have "apply_ops (export_ops g repos des) s1 = Inr s1" by (rule apply_ops_idem)
  then have "drop_counts (de_loop g repos des (s1, zero_counts)) = Inr s1"
    using de_loop_ops[of g repos des s1 zero_counts] by simp
  then obtain n2 where "de_loop g repos des (s1, zero_counts) = Inr (s1, n2)"
    by (auto simp: drop_counts_def split: sum.splits)
  then show ?thesis using des by (simp add: dhis2diff_mer_def)
qed

theorem dhis2diff_mer_idempotent_witness:
  "dhis2diff_mer example_reference_json example_repos scenario_export empty_snapshot =
     Inr (scenario_snapshot, \<lparr>num_indicators = 1, num_disaggregates = 1, num_mappings = 1,
       num_indicator_refs = 1, num_disaggregate_refs = 1\<rparr>) \<and>
   (\<exists>n2. dhis2diff_mer example_reference_json example_repos scenario_export scenario_snapshot =
     Inr (scenario_snapshot, n2))"
  using dhis2diff_mer_idempotent [OF scenario_run] scenario_run by simp

text \<open>
  C5. Key determinism and injectivity: the concept key is a function of the concept id
  alone (owner PEPFAR and source MER are fixed), it is
  \<open>/orgs/PEPFAR/sources/MER/concepts/{id}/\<close>, and two ids have the same key exactly
  when they are the same id.
\<close>

theorem concept_url_injective:
  "concept_url a = ''/orgs/PEPFAR/sources/MER/concepts/'' @ a @ ''/'' \<and>
   (concept_url a = concept_url b \<longleftrightarrow> a = b)"
  by (simp add: concept_url_def)

text \<open>
  C6, as stated, fails when the category-option-combo has the code of the data element:
  both have the same concept key and the same reference key, so the run leaves one concept
  (the indicator), no disaggregate, and one reference.
\<close>

theorem same_code_one_concept_one_reference:
  "dhis2diff_mer example_reference_json example_repos
     \<lparr>dataElements = Some [scenario_de ''TX_NEW'' [''dsA'']]\<rparr> empty_snapshot =
     Inr (same_code_snapshot, \<lparr>num_indicators = 1, num_disaggregates = 0, num_mappings = 1,
       num_indicator_refs = 1, num_disaggregate_refs = 0\<rparr>)"
  by (simp add: run_defs same_code_snapshot_def)

text \<open>
  C6, amended. For an export with one data element that has one category-option-combo, of
  a code other than the data element's, and one dataset-element link whose dataset is in the
  table of dataset repositories, a run from the fresh snapshot returns one Indicator concept,
  one Disaggregate concept, one \<open>Has Option\<close> mapping and two concept references in
  the dataset's collection, one for the indicator and one for the disaggregate, the helper
  \<open>get_concept_reference_json\<close> giving the two different keys. And a disaggregate
  reference whose key is already in the partition is not stored again, nor counted.
\<close>

theorem single_element_scenario:
  assumes "code \<noteq> dcode"
    and "repos dataset_id = Some collection_id"
    and "fst (g ''PEPFAR'' collection_id (concept_url code)) \<noteq>
         fst (g ''PEPFAR'' collection_id (concept_url dcode))"
  shows "dhis2diff_mer g repos
     \<lparr>dataElements = Some
        [\<lparr>de_id = Some ext_id, de_code = Some code, de_name = Some full_name,
          de_shortName = Some short_name, de_description = description,
          categoryCombo = Some \<lparr>categoryOptionCombos = Some
            [\<lparr>coc_id = Some coc_ext_id, coc_code = Some dcode, coc_name = Some coc_full_name\<rparr>]\<rparr>,
          dataSetElements = Some [\<lparr>dataSet = Some \<lparr>ds_id = Some dataset_id\<rparr>\<rparr>]\<rparr>]\<rparr>
     empty_snapshot =
   Inr (\<lparr>concepts =
           [concept_url code \<mapsto> indicator_concept code ext_id full_name short_name description,
            concept_url dcode \<mapsto> disaggregate_concept dcode coc_ext_id coc_full_name],
         mappings =
           [disaggregate_mapping_key (concept_url code) (concept_url dcode) \<mapsto>
              disaggregate_mapping (concept_url code) (concept_url dcode)],
         concept_refs =
           [fst (g ''PEPFAR'' collection_id (concept_url code)) \<mapsto>
              snd (g ''PEPFAR'' collection_id (concept_url code)),
            fst (g ''PEPFAR'' collection_id (concept_url dcode)) \<mapsto>
              snd (g ''PEPFAR'' collection_id (concept_url dcode))]\<rparr>,
        \<lparr>num_indicators = 1, num_disaggregates = 1, num_mappings = 1,
         num_indicator_refs = 1, num_disaggregate_refs = 1\<rparr>) \<and>
   (\<forall>s n col url. concept_refs s (fst (g ''PEPFAR'' col url)) \<noteq> None \<longrightarrow>
      disaggregate_ref_step g col url (s, n) = (s, n))"
proof
  show "\<forall>s n col url. concept_refs s (fst (g ''PEPFAR'' col url)) \<noteq> None \<longrightarrow>
      disaggregate_ref_step g col url (s, n) = (s, n)"
    by (simp add: disaggregate_ref_step_present)
next
  show "dhis2diff_mer g repos
     \<lparr>dataElements = Some
        [\<lparr>de_id = Some ext_id, de_code = Some code, de_name = Some full_name,
          de_shortName = Some short_name, de_description = description,
          categoryCombo = Some \<lparr>categoryOptionCombos = Some
            [\<lparr>coc_id = Some coc_ext_id, coc_code = Some dcode, coc_name = Some coc_full_name\<rparr>]\<rparr>,
          dataSetElements = Some [\<lparr>dataSet = Some \<lparr>ds_id = Some dataset_id\<rparr>\<rparr>]\<rparr>]\<rparr>
     empty_snapshot =
   Inr (\<lparr>concepts =
           [concept_url code \<mapsto> indicator_concept code ext_id full_name short_name description,
            concept_url dcode \<mapsto> disaggregate_concept dcode coc_ext_id coc_full_name],
         mappings =
           [disaggregate_mapping_key (concept_url code) (concept_url dcode) \<mapsto>
              disaggregate_mapping (concept_url code) (concept_url dcode)],
         concept_refs =
           [fst (g ''PEPFAR'' collection_id (concept_url code)) \<mapsto>
              snd (g ''PEPFAR'' collection_id (concept_url code)),
            fst (g ''PEPFAR'' collection_id (concept_url dcode)) \<mapsto>
              snd (g ''PEPFAR'' collection_id (concept_url dcode))]\<rparr>,
        \<lparr>num_indicators = 1, num_disaggregates = 1, num_mappings = 1,
         num_indicator_refs = 1, num_disaggregate_refs = 1\<rparr>)"
    using assms
    by (simp add: dhis2diff_mer_def de_step_def coc_step_def dse_step_def
          disaggregate_ref_step_def empty_snapshot_def zero_counts_def Let_def
          concept_url_eq case_prod_beta)
qed

theorem single_element_scenario_witness:
  "dhis2diff_mer example_reference_json example_repos
     \<lparr>dataElements = Some [scenario_de ''Age_15+'' [''dsA'']]\<rparr> empty_snapshot =
   Inr (scenario_snapshot,
        \<lparr>num_indicators = 1, num_disaggregates = 1, num_mappings = 1,
         num_indicator_refs = 1, num_disaggregate_refs = 1\<rparr>) \<and>
   disaggregate_ref_step example_reference_json ''COL1'' (concept_url ''Age_15+'')
     (scenario_snapshot, zero_counts) = (scenario_snapshot, zero_counts)"
proof -
  have a: "''TX_NEW'' \<noteq> ''Age_15+''" by simp
  have b: "example_repos ''dsA'' = Some ''COL1''" by (simp add: example_repos_def)
  have c: "fst (example_reference_json ''PEPFAR'' ''COL1'' (concept_url ''TX_NEW'')) \<noteq>
         fst (example_reference_json ''PEPFAR'' ''COL1'' (concept_url ''Age_15+''))"
    by (simp add: example_reference_json_def concept_url_def)
  have d: "concept_refs scenario_snapshot
      (fst (example_reference_json ''PEPFAR'' ''COL1'' (concept_url ''Age_15+''))) \<noteq> None"
    by (simp add: scenario_snapshot_def)
  show ?thesis
    using single_element_scenario [where g = example_reference_json and repos = example_repos
        and code = "''TX_NEW''" and dcode = "''Age_15+''" and dataset_id = "''dsA''"
        and collection_id = "''COL1''" and ext_id = "''de1''" and full_name = "''New on ART''"
        and short_name = "''TX_NEW''" and description = None and coc_ext_id = "''coc1''"
        and coc_full_name = "''15+''", OF a b c] d
    by (simp add: scenario_de_def make_de_def make_coc_def scenario_snapshot_def)
qed

text \<open>
  C7, as stated, fails in its last part: no counter counts a skipped link. The run on an
  export whose only link is to an unknown dataset returns the snapshot and the five
  counters of the run on the same export without the link.
\<close>

theorem unknown_dataset_link_not_counted:
  "dhis2diff_mer example_reference_json example_repos
     \<lparr>dataElements = Some [scenario_de ''Age_15+'' [''dsB'']]\<rparr> empty_snapshot =
     Inr (unknown_link_snapshot, \<lparr>num_indicators = 1, num_disaggregates = 1, num_mappings = 1,
       num_indicator_refs = 0, num_disaggregate_refs = 0\<rparr>) \<and>
   dhis2diff_mer example_reference_json example_repos
     \<lparr>dataElements = Some [scenario_de ''Age_15+'' []]\<rparr> empty_snapshot =
     Inr (unknown_link_snapshot, \<lparr>num_indicators = 1, num_disaggregates = 1, num_mappings = 1,
       num_indicator_refs = 0, num_disaggregate_refs = 0\<rparr>)"
  by (simp add: run_defs unknown_link_snapshot_def)

text \<open>
  C7, amended. A dataset-element link whose dataset id is not in \<open>ocl_dataset_repos\<close>
  is skipped without an exception: the loop body leaves the snapshot and the counters as
  they are, the loop goes on with the remaining links, and the whole run returns what it
  returns on the export without such links. The skipped link is not counted.
\<close>

theorem unknown_dataset_skipped:
  "(unknown_dataset repos dse \<longrightarrow>
      dse_step g repos iurl urls dse st = Inr st \<and>
      dse_loop g repos iurl urls (dse # dses) st = dse_loop g repos iurl urls dses st) \<and>
   dhis2diff_mer g repos (without_unknown_datasets repos export) s =
     dhis2diff_mer g repos export s"
  by (cases "dataElements export")
    (simp_all add: dse_step_unknown dhis2diff_mer_def without_unknown_datasets_def de_loop_filter)

theorem unknown_dataset_skipped_witness:
  "dse_step example_reference_json example_repos (concept_url ''TX_NEW'') [concept_url ''Age_15+'']
     \<lparr>dataSet = Some \<lparr>ds_id = Some ''dsB''\<rparr>\<rparr> (unknown_link_snapshot, zero_counts) =
     Inr (unknown_link_snapshot, zero_counts) \<and>
   dse_loop example_reference_json example_repos (concept_url ''TX_NEW'') [concept_url ''Age_15+'']
     [\<lparr>dataSet = Some \<lparr>ds_id = Some ''dsB''\<rparr>\<rparr>] (unknown_link_snapshot, zero_counts) =
     Inr (unknown_link_snapshot, zero_counts) \<and>
   dhis2diff_mer example_reference_json example_repos
     \<lparr>dataElements = Some [scenario_de ''Age_15+'' []]\<rparr> empty_snapshot =
   dhis2diff_mer example_reference_json example_repos
     \<lparr>dataElements = Some [scenario_de ''Age_15+'' [''dsB'']]\<rparr> empty_snapshot"
proof -
  have u: "unknown_dataset example_repos \<lparr>dataSet = Some \<lparr>ds_id = Some ''dsB''\<rparr>\<rparr>"
    by (simp add: unknown_dataset_def example_repos_def)
  have w: "without_unknown_datasets example_repos \<lparr>dataElements = Some [scenario_de ''Age_15+'' [''dsB'']]\<rparr> =
      \<lparr>dataElements = Some [scenario_de ''Age_15+'' []]\<rparr>"
    by (simp add: without_unknown_datasets_def scenario_de_def make_de_def unknown_dataset_def
          example_repos_def)
  show ?thesis
    using u w unknown_dataset_skipped [of example_repos "\<lparr>dataSet = Some \<lparr>ds_id = Some ''dsB''\<rparr>\<rparr>"
        example_reference_json "concept_url ''TX_NEW''" "[concept_url ''Age_15+'']"
        "(unknown_link_snapshot, zero_counts)" "[]"
        "\<lparr>dataElements = Some [scenario_de ''Age_15+'' [''dsB'']]\<rparr>" empty_snapshot]
    by simp
qed

text \<open>
  C8. Period validation: \<open>is_valid_imap_period\<close> accepts a period string exactly when
  it is the one allow-listed period, \<open>FY17\<close>; every other string is rejected.
\<close>

theorem is_valid_imap_period_allow_list:
  "is_valid_imap_period per \<longleftrightarrow> per = ''FY17''"
  by (simp add: is_valid_imap_period_def)

text \<open>
  C9. Constructing a \<open>DatimImap\<close> with the default \<open>imap_data=None\<close>, or with
  any value that is neither a \<open>csv.DictReader\<close> nor a list, raises the exception of
  \<open>set_imap_data\<close> and leaves the imap data \<open>None\<close>; a construction that
  succeeds holds a list as its imap data (the rows of the reader, or the list given).
\<close>

theorem DatimImap_init_imap_data:
  "DatimImap_init cc org per PyNone =
     (Inl (CannotSetImapData PyNone),
      \<lparr>country_code = cc, country_org = org, period = per, imap_data = None\<rparr>) \<and>
   (\<not> is_reader_or_list arg \<longrightarrow>
      fst (DatimImap_init cc org per arg) = Inl (CannotSetImapData arg) \<and>
      imap_data (snd (DatimImap_init cc org per arg)) = None) \<and>
   (fst (DatimImap_init cc org per arg) = Inr () \<longrightarrow>
      (\<exists>rows. imap_data (snd (DatimImap_init cc org per arg)) = Some rows \<and>
         (arg = DictReader rows \<or> arg = PyList rows)))"
  by (cases arg)
    (simp_all add: DatimImap_init_def set_imap_data_def is_reader_or_list_def append_rows_eq)

theorem DatimImap_init_imap_data_witness:
  "fst (DatimImap_init ''UG'' ''DATIM-MOH-UG'' ''FY17'' (PyOther ''imap.csv'')) =
     Inl (CannotSetImapData (PyOther ''imap.csv'')) \<and>
   imap_data (snd (DatimImap_init ''UG'' ''DATIM-MOH-UG'' ''FY17'' (PyOther ''imap.csv''))) = None \<and>
   (\<exists>rows. imap_data (snd (DatimImap_init ''UG'' ''DATIM-MOH-UG'' ''FY17''
       (DictReader [example_row]))) = Some rows \<and>
     (DictReader [example_row] = DictReader rows \<or> DictReader [example_row] = PyList rows))"
proof -
  have a: "\<not> is_reader_or_list (PyOther ''imap.csv'')"
    by (simp add: is_reader_or_list_def)
  have b: "fst (DatimImap_init ''UG'' ''DATIM-MOH-UG'' ''FY17'' (DictReader [example_row])) = Inr ()"
    by (simp add: DatimImap_init_def set_imap_data_def)
  show ?thesis
    using DatimImap_init_imap_data [of "''UG''" "''DATIM-MOH-UG''" "''FY17''" "PyOther ''imap.csv''"]
      DatimImap_init_imap_data [of "''UG''" "''DATIM-MOH-UG''" "''FY17''" "DictReader [example_row]"]
      a b
    by blast
qed

text \<open>
  C10. \<open>is_valid\<close> returns \<open>False\<close>, whatever \<open>throw_exception_on_error\<close> is,
  when the imap data is \<open>None\<close> or empty. It returns \<open>True\<close> exactly for non-empty
  data in which every row has all the fields of \<open>IMAP_FIELD_NAMES\<close>, of which there
  are nine. With \<open>throw_exception_on_error=True\<close>, data with a row that lacks a field
  raises the exception that names a field the row lacks and the row's number, counted
  from 1: the first row that lacks a field, and the first field it lacks.
\<close>

theorem is_valid_result:
  "length IMAP_FIELD_NAMES = 9 \<and>
   (imap_data self = None \<or> imap_data self = Some [] \<longrightarrow> is_valid self t = Inr False) \<and>
   (is_valid self t = Inr True \<longleftrightarrow>
      (\<exists>rows. imap_data self = Some rows \<and> rows \<noteq> [] \<and> (\<forall>r\<in>set rows. has_all_fields r))) \<and>
   (\<forall>rows. imap_data self = Some rows \<and> (\<exists>r\<in>set rows. \<not> has_all_fields r) \<longrightarrow>
      (\<exists>f i. is_valid self True = Inl (MissingField f i) \<and>
         0 < i \<and> i \<le> length rows \<and>
         f \<in> set IMAP_FIELD_NAMES \<and> (rows ! (i - 1)) f = None \<and>
         (\<forall>f'\<in>set (takeWhile (\<lambda>f'. f' \<noteq> f) IMAP_FIELD_NAMES). (rows ! (i - 1)) f' \<noteq> None) \<and>
         (\<forall>r\<in>set (take (i - 1) rows). has_all_fields r)))"
proof (intro conjI allI impI)
  show "length IMAP_FIELD_NAMES = 9" by (simp add: IMAP_FIELD_NAMES_def)
next
  assume "imap_data self = None \<or> imap_data self = Some []"
  then show "is_valid self t = Inr False" by (auto simp: is_valid_def)
next
  show "is_valid self t = Inr True \<longleftrightarrow>
      (\<exists>rows. imap_data self = Some rows \<and> rows \<noteq> [] \<and> (\<forall>r\<in>set rows. has_all_fields r))"
    by (cases "imap_data self") (auto simp: is_valid_def rows_loop_True)
next
  fix rows
  assume h: "imap_data self = Some rows \<and> (\<exists>r\<in>set rows. \<not> has_all_fields r)"
  then have "\<exists>r\<in>set rows. \<not> has_all_fields r" by simp
  from split_list_first_prop[OF this] obtain pre r post where
    rows: "rows = pre @ r # post" and r: "\<not> has_all_fields r"
    and pre: "\<forall>r'\<in>set pre. has_all_fields r'"
    by auto
  from r obtain fpre f fpost where fs: "IMAP_FIELD_NAMES = fpre @ f # fpost"
    and fpre: "\<forall>f'\<in>set fpre. r f' \<noteq> None" and f: "r f = None"
    by (rule first_missing_field)
  have "f \<notin> set fpre" using fpre f by auto
  then have "takeWhile (\<lambda>f'. f' \<noteq> f) (fpre @ f # fpost) = fpre"
    by (subst takeWhile_append2) auto
  then have tw: "takeWhile (\<lambda>f'. f' \<noteq> f) IMAP_FIELD_NAMES = fpre"
    unfolding fs .
  have "is_valid self True = Inl (MissingField f (length pre + 1))"
    using h rows rows_loop_first[OF pre fs fpre f, of True 0 post] by (simp add: is_valid_def)
  moreover have "rows ! (length pre + 1 - 1) = r" using rows by simp
  moreover have "take (length pre + 1 - 1) rows = pre" using rows by simp
  moreover have "f \<in> set IMAP_FIELD_NAMES" unfolding fs by simp
  moreover have "length pre + 1 \<le> length rows" using rows by simp
  ultimately show "\<exists>f i. is_valid self True = Inl (MissingField f i) \<and>
         0 < i \<and> i \<le> length rows \<and>
         f \<in> set IMAP_FIELD_NAMES \<and> (rows ! (i - 1)) f = None \<and>
         (\<forall>f'\<in>set (takeWhile (\<lambda>f'. f' \<noteq> f) IMAP_FIELD_NAMES). (rows ! (i - 1)) f' \<noteq> None) \<and>
         (\<forall>r\<in>set (take (i - 1) rows). has_all_fields r)"
    using f fpre pre tw by (intro exI[of _ f] exI[of _ "length pre + 1"]) simp
qed



theorem is_valid_result_witness:
  "is_valid (example_imap None) True = Inr False \<and>
   is_valid (example_imap (Some [example_row])) True = Inr True \<and>
   is_valid (example_imap (Some [example_row, example_row_no_operation])) True =
     Inl (MissingField ''Operation'' 2)"
proof -
  let ?rows = "[example_row, example_row_no_operation]"
  note a = is_valid_result [of "example_imap None" True]
  note b = is_valid_result [of "example_imap (Some [example_row])" True]
  note c = is_valid_result [of "example_imap (Some ?rows)" True]
  have 1: "is_valid (example_imap None) True = Inr False"
    using a by (simp add: example_imap_def)
  have 2: "is_valid (example_imap (Some [example_row])) True = Inr True"
    using b example_row_has_all_fields by (simp add: example_imap_def)
  have bad: "\<not> has_all_fields example_row_no_operation"
    using example_row_no_operation_field[of "''Operation''"]
    by (auto simp: has_all_fields_def IMAP_FIELD_NAMES_def)
  have "imap_data (example_imap (Some ?rows)) = Some ?rows \<and> (\<exists>r\<in>set ?rows. \<not> has_all_fields r)"
    using bad by (simp add: example_imap_def)
  with c obtain f i where e: "is_valid (example_imap (Some ?rows)) True = Inl (MissingField f i)"
    and i: "0 < i" "i \<le> length ?rows" and f: "f \<in> set IMAP_FIELD_NAMES"
    and m: "(?rows ! (i - 1)) f = None"
    by blast
  have "i = 1 \<or> i = 2" using i by auto
  then have "i = 2"
  proof
    assume "i = 1"
    then have "example_row f = None" using m by simp
    then show ?thesis using f example_row_has_all_fields by (auto simp: has_all_fields_def)
  qed
  moreover from this have "example_row_no_operation f = None" using m by simp
  then have "f = ''Operation''" using example_row_no_operation_field[OF f] by simp
  ultimately show ?thesis using 1 2 e by simp
qed

end
